theory Spec2Isabelle
  imports Complex_Main "HOL-Library.Sublist"
begin

section \<open>Values of the Python program\<close>

text \<open>
  The server of \<^verbatim>\<open>weather_mcp_server.py\<close> reads JSON-RPC requests, one per line, and
  answers them from four read-only artifacts. Python is dynamically typed: a handler
  receives whatever JSON value the client sent, and a wrong type shows as an exception at
  the first operation that needs the right one. The model keeps that: handlers take
  \<open>json\<close> values and return \<open>exn + 'a\<close>, with \<open>Inl\<close> for a raised exception.

  Python floats are idealised as rationals (\<open>rat\<close>): sums, products and comparisons are
  exact, and there is no NaN. Python strings are lists of characters with code points
  below 256.
\<close>

datatype json =
    JNull
  | JBool bool
  | JInt int
  | JReal rat
  | JStr string
  | JArr "json list"
  | JObj "(string \<times> json) list"

text \<open>
  A string the program builds: the pieces of an f-string, or the result of
  \<^verbatim>\<open>json.dumps(x, indent=2)\<close>. The formatting of a value is not computed; the piece
  records which value is formatted.
\<close>

datatype frag =
    Lit string
  | Str json
  | Dumps json

type_synonym pystr = "frag list"

datatype exn =
    ValueError pystr
  | AttributeError pystr
  | TypeError pystr
  | IndexError pystr
  | NetworkXError pystr
  | RecursionError pystr
  | LibraryError pystr

fun str_exn :: "exn \<Rightarrow> pystr" where
  "str_exn (ValueError m) = m"
| "str_exn (AttributeError m) = m"
| "str_exn (TypeError m) = m"
| "str_exn (IndexError m) = m"
| "str_exn (NetworkXError m) = m"
| "str_exn (RecursionError m) = m"
| "str_exn (LibraryError m) = m"

text \<open>
  The messages of the interpreter's own exceptions name the type of the offending value,
  in single quotes.
\<close>

fun type_name :: "json \<Rightarrow> string" where
  "type_name JNull = ''NoneType''"
| "type_name (JBool b) = ''bool''"
| "type_name (JInt i) = ''int''"
| "type_name (JReal r) = ''float''"
| "type_name (JStr s) = ''str''"
| "type_name (JArr xs) = ''list''"
| "type_name (JObj d) = ''dict''"

definition quoted :: "string \<Rightarrow> string" where
  "quoted s = [CHR 0x27] @ s @ [CHR 0x27]"

definition no_attribute :: "json \<Rightarrow> string \<Rightarrow> exn" where
  "no_attribute x name =
     AttributeError [Lit (quoted (type_name x)), Lit '' object has no attribute '', Lit (quoted name)]"

definition not_iterable :: "json \<Rightarrow> exn" where
  "not_iterable x = TypeError [Lit (quoted (type_name x)), Lit '' object is not iterable'']"

definition not_subscriptable :: "json \<Rightarrow> exn" where
  "not_subscriptable x = TypeError [Lit (quoted (type_name x)), Lit '' object is not subscriptable'']"

definition unhashable :: "string \<Rightarrow> exn" where
  "unhashable type = TypeError [Lit ''unhashable type: '', Lit (quoted type)]"

text \<open>Sequencing of statements that may raise: the first exception ends the block.\<close>

definition bind :: "exn + 'a \<Rightarrow> ('a \<Rightarrow> exn + 'b) \<Rightarrow> exn + 'b" where
  "bind m f = (case m of Inl e \<Rightarrow> Inl e | Inr x \<Rightarrow> f x)"

fun mapM :: "('a \<Rightarrow> exn + 'b) \<Rightarrow> 'a list \<Rightarrow> exn + 'b list" where
  "mapM f [] = Inr []"
| "mapM f (x # xs) =
     bind (f x) (\<lambda>y. bind (mapM f xs) (\<lambda>ys. Inr (y # ys)))"

text \<open>\<^verbatim>\<open>d.get(key)\<close> and \<^verbatim>\<open>d.get(key, default)\<close> on a dict.\<close>

definition dict_get :: "(string \<times> json) list \<Rightarrow> string \<Rightarrow> json \<Rightarrow> json" where
  "dict_get d key dflt = (case map_of d key of None \<Rightarrow> dflt | Some v \<Rightarrow> v)"

text \<open>
  \<^verbatim>\<open>x.get(key, default)\<close> on any value: only a dict has the method.
\<close>

fun py_get :: "json \<Rightarrow> string \<Rightarrow> json \<Rightarrow> exn + json" where
  "py_get (JObj d) key dflt = Inr (dict_get d key dflt)"
| "py_get x key dflt = Inl (no_attribute x ''get'')"

text \<open>
  \<^verbatim>\<open>xs[:k]\<close>: a negative bound counts from the end, \<^verbatim>\<open>None\<close> keeps everything, a
  boolean is the integer 0 or 1, anything else is a TypeError.
\<close>

definition slice_int :: "int \<Rightarrow> 'a list \<Rightarrow> 'a list" where
  "slice_int k xs = (if 0 \<le> k then take (nat k) xs else take (nat (int (length xs) + k)) xs)"

fun py_slice_to :: "json \<Rightarrow> 'a list \<Rightarrow> exn + 'a list" where
  "py_slice_to (JInt k) xs = Inr (slice_int k xs)"
| "py_slice_to (JBool b) xs = Inr (slice_int (if b then 1 else 0) xs)"
| "py_slice_to JNull xs = Inr xs"
| "py_slice_to _ xs = Inl (TypeError [Lit ''slice indices must be integers or None or have an __index__ method''])"

section \<open>Strings\<close>

text \<open>
  \<^verbatim>\<open>str.isspace\<close>, \<^verbatim>\<open>str.strip()\<close> and the class \<^verbatim>\<open>\s\<close> of \<^verbatim>\<open>re\<close> agree on
  what whitespace is: below 256 these are the code points 9 to 13, 28 to 32, 133 and 160.
\<close>

definition isspace :: "char \<Rightarrow> bool" where
  "isspace c = (let n = (of_char c :: nat) in
     (9 \<le> n \<and> n \<le> 13) \<or> (28 \<le> n \<and> n \<le> 32) \<or> n = 133 \<or> n = 160)"

text \<open>
  \<^verbatim>\<open>str.lower\<close> on one character: A to Z, and the capital letters 192 to 222 of Latin-1
  other than the multiplication sign 215, move up by 32.
\<close>

definition lower_char :: "char \<Rightarrow> char" where
  "lower_char c = (let n = (of_char c :: nat) in
     if (65 \<le> n \<and> n \<le> 90) \<or> (192 \<le> n \<and> n \<le> 222 \<and> n \<noteq> 215) then char_of (n + 32) else c)"

definition lower :: "string \<Rightarrow> string" where
  "lower s = map lower_char s"

definition strip :: "string \<Rightarrow> string" where
  "strip s = rev (dropWhile isspace (rev (dropWhile isspace s)))"

text \<open>\<^verbatim>\<open>a.startswith(p)\<close> is \<open>prefix p a\<close>; \<^verbatim>\<open>a in s\<close> on strings is \<open>sublist a s\<close>.\<close>

text \<open>\<^verbatim>\<open>s.split()\<close>: the maximal runs of non-whitespace characters.\<close>

fun split_ws :: "string \<Rightarrow> string \<Rightarrow> string list" where
  "split_ws acc [] = (if acc = [] then [] else [acc])"
| "split_ws acc (c # cs) =
     (if isspace c then (if acc = [] then split_ws [] cs else acc # split_ws [] cs)
      else split_ws (acc @ [c]) cs)"

definition py_split :: "string \<Rightarrow> string list" where
  "py_split s = split_ws [] s"

section \<open>Citation validator\<close>

text \<open>
  \<^verbatim>\<open>re.split(r'(?<=[.!?])\s+', s)\<close>. A match starts at a whitespace character whose
  predecessor is one of \<^verbatim>\<open>.!?\<close> and takes the whole run of whitespace; the pieces
  between the matches are returned, the matched whitespace is not. \<open>re_split_from p sep acc s\<close>
  scans \<open>s\<close> from left to right: \<open>p\<close> says that the previous character is one of
  \<^verbatim>\<open>.!?\<close>, \<open>sep\<close> that the scan is inside a match, \<open>acc\<close> is the piece read so far.
\<close>

definition is_terminator :: "char \<Rightarrow> bool" where
  "is_terminator c = (c = CHR ''.'' \<or> c = CHR ''!'' \<or> c = CHR ''?'')"

fun re_split_from :: "bool \<Rightarrow> bool \<Rightarrow> string \<Rightarrow> string \<Rightarrow> string list" where
  "re_split_from p sep acc [] = [acc]"
| "re_split_from p sep acc (c # cs) =
     (if isspace c \<and> sep then re_split_from False True acc cs
      else if isspace c \<and> p then acc # re_split_from False True [] cs
      else re_split_from (is_terminator c) False (acc @ [c]) cs)"

definition re_split :: "string \<Rightarrow> string list" where
  "re_split s = re_split_from False False [] s"

text \<open>Line 258: \<^verbatim>\<open>sentences = re.split(r'(?<=[.!?])\s+', text.strip())\<close>.\<close>

definition sentences_of :: "string \<Rightarrow> string list" where
  "sentences_of text = re_split (strip text)"

text \<open>
  Line 268, the test of one anchor against one sentence:
  \<^verbatim>\<open>a.lower() in s.lower() or a.startswith("http") and a in s\<close>.
\<close>

definition anchor_hit :: "string \<Rightarrow> string \<Rightarrow> bool" where
  "anchor_hit a s = (sublist (lower a) (lower s) \<or> (prefix ''http'' a \<and> sublist a s))"

text \<open>
  Lines 259 to 261: \<^verbatim>\<open>for c in citations: anchors.add(c)\<close>. Iterating a list gives its
  elements, a string its characters, a dict its keys; nothing else can be iterated.
  A list or dict cannot be put into a set. Python leaves the iteration order of a set
  open; the model iterates in the order of first insertion.
\<close>

fun py_iter :: "json \<Rightarrow> exn + json list" where
  "py_iter (JArr xs) = Inr xs"
| "py_iter (JStr s) = Inr (map (\<lambda>c. JStr [c]) s)"
| "py_iter (JObj d) = Inr (map (\<lambda>kv. JStr (fst kv)) d)"
| "py_iter x = Inl (not_iterable x)"

fun hashable :: "json \<Rightarrow> bool" where
  "hashable (JArr xs) = False"
| "hashable (JObj d) = False"
| "hashable _ = True"

definition make_anchors :: "json \<Rightarrow> exn + json list" where
  "make_anchors citations =
     bind (py_iter citations) (\<lambda>cs.
       case find (\<lambda>c. \<not> hashable c) cs of
         None \<Rightarrow> Inr (rev (remdups (rev cs)))
       | Some c \<Rightarrow> Inl (unhashable (type_name c)))"

text \<open>
  Lines 266 to 270, the inner loop with its \<^verbatim>\<open>break\<close>: the anchors are tried in turn
  until one hits; an anchor that is not a string has no \<^verbatim>\<open>lower\<close>.
\<close>

fun find_anchor :: "json list \<Rightarrow> string \<Rightarrow> exn + bool" where
  "find_anchor [] s = Inr False"
| "find_anchor (JStr a # as) s = (if anchor_hit a s then Inr True else find_anchor as s)"
| "find_anchor (a # as) s = Inl (no_attribute a ''lower'')"

record detail =
  sentence :: string
  covered :: bool

record validate_result =
  coverage_pct :: rat
  details :: "detail list"

text \<open>
  Lines 274 and 275:
  \<^verbatim>\<open>sum(1 for c in coverage if c["covered"]) / max(1, len(coverage)) * 100\<close>.
\<close>

definition cov_pct :: "detail list \<Rightarrow> rat" where
  "cov_pct coverage =
     of_nat (length (filter covered coverage)) / of_nat (max 1 (length coverage)) * 100"

text \<open>
  The body of \<^verbatim>\<open>cite_validate\<close> up to \<^verbatim>\<open>result_data\<close>. \<^verbatim>\<open>text.strip()\<close> comes
  first and needs a string.
\<close>

definition cite_validate_data :: "json \<Rightarrow> json \<Rightarrow> exn + validate_result" where
  "cite_validate_data text citations =
     (case text of
        JStr t \<Rightarrow>
          bind (make_anchors citations) (\<lambda>anchors.
          bind (mapM (\<lambda>s. bind (find_anchor anchors s)
                             (\<lambda>found. Inr \<lparr>sentence = s, covered = found\<rparr>))
                     (sentences_of t)) (\<lambda>coverage.
          Inr \<lparr>coverage_pct = cov_pct coverage, details = coverage\<rparr>))
      | _ \<Rightarrow> Inl (no_attribute text ''strip''))"

section \<open>Resource store\<close>

text \<open>
  The artifacts loaded by \<^verbatim>\<open>_load_resources\<close>, and the libraries the handlers call.
  \<^item> \<open>doc_meta\<close>: the document table; position \<open>i\<close> belongs to row \<open>i\<close> of both indexes.
  \<^item> \<open>bm25_get_scores\<close>: \<^verbatim>\<open>bm25.get_scores(tokens)\<close>, one score per position.
  \<^item> \<open>dense_search\<close>: lines 142 to 144, the embedding of the query and the search of the
    vector index; it returns \<^verbatim>\<open>zip(D[0], I[0])\<close>, with a negative index for an empty slot.
  \<^item> \<open>kg\<close>: the context graph. A node of a networkx graph has an attribute dict and a
    successor list; the graph keeps both under the same keys, so one map holds them.
  \<^item> \<open>web_search\<close>: the \<^verbatim>\<open>result_data\<close> of the web search adapter, which catches every
    exception of the call it makes.
  \<^item> \<open>json_loads\<close>: \<^verbatim>\<open>json.loads\<close>, with its three outcomes.
\<close>

text \<open>
  \<^verbatim>\<open>json.loads\<close> returns the value it has read, or raises JSONDecodeError with a message,
  or raises something else: RecursionError on input nested deeper than the interpreter's
  recursion limit, a plain ValueError on a number with more digits than the interpreter
  converts.
\<close>

datatype loaded =
    Loaded json
  | JSONDecodeError string
  | Raised exn

record doc =
  meta_section_id :: string
  meta_section_name :: json
  meta_title :: json

record node =
  attrs :: "(string \<times> json) list"
  succs :: "string list"

type_synonym graph = "string \<rightharpoonup> node"

record server =
  doc_meta :: "doc list"
  bm25_get_scores :: "string list \<Rightarrow> rat list"
  dense_search :: "string \<Rightarrow> json \<Rightarrow> exn + (rat \<times> int) list"
  kg :: graph
  web_search :: "json \<Rightarrow> json \<Rightarrow> json"
  json_loads :: "string \<Rightarrow> loaded"

text \<open>\<^verbatim>\<open>doc_meta[i]\<close> for an index that is not negative.\<close>

definition doc_at :: "doc list \<Rightarrow> nat \<Rightarrow> exn + doc" where
  "doc_at ds i = (if i < length ds then Inr (ds ! i) else Inl (IndexError [Lit ''list index out of range'']))"

text \<open>
  \<^verbatim>\<open>kg.nodes.get(key)\<close>: the nodes are keyed by section ids, which are strings, so any
  other hashable key finds nothing; a list or a dict cannot be a key at all.
\<close>

fun nodes_get :: "graph \<Rightarrow> json \<Rightarrow> exn + (string \<times> json) list option" where
  "nodes_get g (JStr s) = Inr (map_option attrs (g s))"
| "nodes_get g (JArr xs) = Inl (unhashable ''list'')"
| "nodes_get g (JObj d) = Inl (unhashable ''dict'')"
| "nodes_get g _ = Inr None"

text \<open>
  \<^verbatim>\<open>kg.successors(n)\<close>: networkx raises NetworkXError for a node that is not in the graph.
\<close>

definition successors :: "graph \<Rightarrow> string \<Rightarrow> exn + string list" where
  "successors g n =
     (case g n of
        None \<Rightarrow> Inl (NetworkXError [Lit ''The node '', Str (JStr n), Lit '' is not in the digraph.''])
      | Some nd \<Rightarrow> Inr (succs nd))"

section \<open>Hybrid retrieval engine\<close>

text \<open>
  \<^verbatim>\<open>np.argsort(scores)\<close>: the positions in ascending order of score. numpy does not fix
  the order of positions with equal scores; the model keeps them in ascending order.
\<close>

definition argsort :: "rat list \<Rightarrow> nat list" where
  "argsort scores = sort_key (\<lambda>i. scores ! i) [0..<length scores]"

text \<open>Lines 135 to 139.\<close>

definition bm25_candidates :: "server \<Rightarrow> string \<Rightarrow> json \<Rightarrow> exn + (string \<times> rat) list" where
  "bm25_candidates S query k =
     (let tokens = py_split query;
          bm25_scores = bm25_get_scores S tokens
      in bind (py_slice_to k (rev (argsort bm25_scores))) (\<lambda>bm25_top_idx.
         mapM (\<lambda>i. bind (doc_at (doc_meta S) i) (\<lambda>m. Inr (meta_section_id m, bm25_scores ! i)))
              (filter (\<lambda>i. bm25_scores ! i > 0) bm25_top_idx)))"

text \<open>Lines 142 to 150.\<close>

definition dense_cands :: "server \<Rightarrow> string \<Rightarrow> json \<Rightarrow> exn + (string \<times> rat) list" where
  "dense_cands S query k =
     bind (dense_search S query k) (\<lambda>DI.
       mapM (\<lambda>(score, idx). bind (doc_at (doc_meta S) (nat idx)) (\<lambda>m. Inr (meta_section_id m, score)))
            (filter (\<lambda>(score, idx). \<not> idx < 0) DI))"

text \<open>
  Lines 153 to 160. A Python dict keeps its keys in the order of first insertion, and an
  assignment to a key that is present replaces the value where it stands.
\<close>

record cand =
  sid :: string
  dense_score :: rat
  bm25_score :: rat

fun dict_set :: "('k \<times> 'v) list \<Rightarrow> 'k \<Rightarrow> 'v \<Rightarrow> ('k \<times> 'v) list" where
  "dict_set [] k v = [(k, v)]"
| "dict_set ((k', v') # d) k v = (if k' = k then (k, v) # d else (k', v') # dict_set d k v)"

definition add_dense :: "(string \<times> cand) list \<Rightarrow> string \<times> rat \<Rightarrow> (string \<times> cand) list" where
  "add_dense merged c =
     dict_set merged (fst c) \<lparr>sid = fst c, dense_score = snd c, bm25_score = 0\<rparr>"

definition add_bm25 :: "(string \<times> cand) list \<Rightarrow> string \<times> rat \<Rightarrow> (string \<times> cand) list" where
  "add_bm25 merged c =
     (case map_of merged (fst c) of
        Some r \<Rightarrow> dict_set merged (fst c) (r\<lparr>bm25_score := snd c\<rparr>)
      | None \<Rightarrow> dict_set merged (fst c) \<lparr>sid = fst c, dense_score = 0, bm25_score = snd c\<rparr>)"

definition merge :: "(string \<times> rat) list \<Rightarrow> (string \<times> rat) list \<Rightarrow> (string \<times> cand) list" where
  "merge dense_cs bm25_cs = foldl add_bm25 (foldl add_dense [] dense_cs) bm25_cs"

text \<open>
  Lines 163 and 164. \<^verbatim>\<open>sorted(..., reverse=True)\<close> is stable: entries with equal keys
  keep their order, which is what a stable ascending sort by the negated key gives.
\<close>

definition combined :: "rat \<Rightarrow> rat \<Rightarrow> rat" where
  "combined d b = d * (7 / 10) + b * (3 / 10)"

definition rank :: "(string \<times> cand) list \<Rightarrow> cand list" where
  "rank merged = sort_key (\<lambda>x. - combined (dense_score x) (bm25_score x)) (map snd merged)"

text \<open>
  Lines 167 to 176, one round of the first loop. \<^verbatim>\<open>node.get("text", "")[:300]\<close> needs a
  string or a list; on a dict the slice is taken for a key and the lookup fails (as a
  TypeError before Python 3.12).
\<close>

record item =
  section_id :: string
  excerpt :: json
  dense :: rat
  bm25 :: rat

record hit = item +
  neighbors :: "string list"

fun first300 :: "json \<Rightarrow> exn + json" where
  "first300 (JStr s) = Inr (JStr (take 300 s))"
| "first300 (JArr xs) = Inr (JArr (take 300 xs))"
| "first300 (JObj d) = Inl (unhashable ''slice'')"
| "first300 x = Inl (not_subscriptable x)"

definition make_item :: "server \<Rightarrow> cand \<Rightarrow> exn + item" where
  "make_item S r =
     (let meta = find (\<lambda>m. meta_section_id m = sid r) (doc_meta S)
      in bind (case meta of
                 None \<Rightarrow> Inr (JStr [])
               | Some m \<Rightarrow>
                   (let node = (case kg S (sid r) of None \<Rightarrow> [] | Some nd \<Rightarrow> attrs nd)
                    in first300 (dict_get node ''text'' (JStr []))))
           (\<lambda>excerpt. Inr \<lparr>section_id = sid r, excerpt = excerpt,
                             dense = dense_score r, bm25 = bm25_score r\<rparr>))"

text \<open>Lines 179 to 181, one round of the second loop.\<close>

definition add_neighbors :: "server \<Rightarrow> item \<Rightarrow> exn + hit" where
  "add_neighbors S it =
     bind (successors (kg S) (section_id it)) (\<lambda>ns.
       Inr \<lparr>section_id = section_id it, excerpt = excerpt it, dense = dense it, bm25 = bm25 it,
            neighbors = take 3 ns\<rparr>)"

text \<open>
  The body of \<^verbatim>\<open>sop_search\<close> up to the list \<^verbatim>\<open>out\<close>. \<^verbatim>\<open>query.split()\<close> comes
  first and needs a string.
\<close>

definition sop_search_out :: "server \<Rightarrow> json \<Rightarrow> json \<Rightarrow> exn + hit list" where
  "sop_search_out S query k =
     (case query of
        JStr q \<Rightarrow>
          bind (bm25_candidates S q k) (\<lambda>bm25_cands.
          bind (dense_cands S q k) (\<lambda>dense_cs.
          bind (py_slice_to k (rank (merge dense_cs bm25_cands))) (\<lambda>top.
          bind (mapM (make_item S) top) (\<lambda>out.
          mapM (add_neighbors S) out))))
      | _ \<Rightarrow> Inl (no_attribute query ''split''))"

section \<open>Tool results\<close>

text \<open>
  What a request handler returns as the \<^verbatim>\<open>result\<close> of a response:
  \<^item> \<open>Tools ts\<close> is \<^verbatim>\<open>{"tools": ts}\<close>;
  \<^item> \<open>Content t\<close> is \<^verbatim>\<open>{"content": [{"type": "text", "text": t}]}\<close>;
  \<^item> \<open>Initialize r\<close> is the dict \<open>r\<close> built for \<^verbatim>\<open>initialize\<close>.
\<close>

datatype result =
    Tools "json list"
  | Content pystr
  | Initialize json

definition hit_json :: "hit \<Rightarrow> json" where
  "hit_json h = JObj [(''section_id'', JStr (section_id h)), (''excerpt'', excerpt h),
     (''scores'', JObj [(''dense'', JReal (dense h)), (''bm25'', JReal (bm25 h))]),
     (''neighbors'', JArr (map JStr (neighbors h)))]"

definition sop_search :: "server \<Rightarrow> json \<Rightarrow> json \<Rightarrow> exn + result" where
  "sop_search S query k =
     bind (sop_search_out S query k) (\<lambda>out.
       Inr (Content [Dumps (JObj [(''query'', query), (''results'', JArr (map hit_json out))])]))"

section \<open>Section reader\<close>

text \<open>
  Lines 192 to 220. \<^verbatim>\<open>if not node\<close> holds for \<^verbatim>\<open>None\<close> and for an empty attribute
  dict alike.
\<close>

definition not_found :: "json \<Rightarrow> result" where
  "not_found secid =
     Content [Lit ''Error: section_id '', Lit [CHR 0x27], Str secid, Lit [CHR 0x27], Lit '' not found'']"

definition result_data :: "json \<Rightarrow> (string \<times> json) list \<Rightarrow> json" where
  "result_data secid node = JObj
     [(''section_id'', secid),
      (''text'', dict_get node ''text'' (JStr [])),
      (''title'', dict_get node ''title'' JNull),
      (''sop'', dict_get node ''sop'' JNull),
      (''section'', dict_get node ''section'' JNull)]"

definition sop_read :: "server \<Rightarrow> json \<Rightarrow> exn + result" where
  "sop_read S secid =
     bind (nodes_get (kg S) secid) (\<lambda>node.
       case node of
         None \<Rightarrow> Inr (not_found secid)
       | Some a \<Rightarrow>
           if a = [] then Inr (not_found secid)
           else Inr (Content [Dumps (result_data secid a)]))"

section \<open>Citation validator and web search as tools\<close>

definition detail_json :: "detail \<Rightarrow> json" where
  "detail_json d = JObj [(''sentence'', JStr (sentence d)), (''covered'', JBool (covered d))]"

definition cite_validate :: "json \<Rightarrow> json \<Rightarrow> exn + result" where
  "cite_validate text citations =
     bind (cite_validate_data text citations) (\<lambda>r.
       Inr (Content [Dumps (JObj [(''coverage_pct'', JReal (coverage_pct r)),
                                  (''details'', JArr (map detail_json (details r)))])]))"

definition web_search_tool :: "server \<Rightarrow> json \<Rightarrow> json \<Rightarrow> exn + result" where
  "web_search_tool S query k = Inr (Content [Dumps (web_search S query k)])"

section \<open>Request dispatcher\<close>

text \<open>The four tool descriptors of \<^verbatim>\<open>__init__\<close>.\<close>

definition query_schema :: json where
  "query_schema = JObj
     [(''type'', JStr ''object''),
      (''properties'', JObj
         [(''query'', JObj [(''type'', JStr ''string''), (''description'', JStr ''Search query'')]),
          (''k'', JObj [(''type'', JStr ''integer''),
                        (''description'', JStr ''Number of results to return''),
                        (''default'', JInt 5)])]),
      (''required'', JArr [JStr ''query''])]"

definition tools :: "json list" where
  "tools =
     [JObj [(''name'', JStr ''sop.search''),
            (''description'', JStr ''Search SOP documents using hybrid BM25 and dense vector search''),
            (''inputSchema'', query_schema)],
      JObj [(''name'', JStr ''sop.read''),
            (''description'', JStr ''Read a specific SOP section by section_id''),
            (''inputSchema'', JObj
               [(''type'', JStr ''object''),
                (''properties'', JObj
                   [(''section_id'', JObj [(''type'', JStr ''string''),
                                           (''description'', JStr ''Section ID to read'')])]),
                (''required'', JArr [JStr ''section_id''])])],
      JObj [(''name'', JStr ''web.search''),
            (''description'', JStr ''Search the web for additional information (requires SERPER_API_KEY)''),
            (''inputSchema'', query_schema)],
      JObj [(''name'', JStr ''cite.validate''),
            (''description'', JStr ''Validate citation coverage in text''),
            (''inputSchema'', JObj
               [(''type'', JStr ''object''),
                (''properties'', JObj
                   [(''text'', JObj [(''type'', JStr ''string''),
                                     (''description'', JStr ''Text to validate citations for'')]),
                    (''citations'', JObj [(''type'', JStr ''array''),
                                          (''items'', JObj [(''type'', JStr ''string'')]),
                                          (''description'', JStr ''List of citations'')])]),
                (''required'', JArr [JStr ''text'', JStr ''citations''])])]]"

text \<open>
  A line written to standard output: a response, which carries the id of its request, or
  a notification, which carries none.
\<close>

datatype response =
    Success json result
  | Failure json int pystr

datatype message =
    Response response
  | Notification string json

text \<open>Lines 298 to 320, the branch for \<^verbatim>\<open>tools/call\<close>.\<close>

definition call_tool :: "server \<Rightarrow> json \<Rightarrow> exn + result" where
  "call_tool S params =
     bind (py_get params ''name'' JNull) (\<lambda>tool_name.
     bind (py_get params ''arguments'' (JObj [])) (\<lambda>arguments.
       if tool_name = JStr ''sop.search'' then
         bind (py_get arguments ''query'' JNull) (\<lambda>query.
         bind (py_get arguments ''k'' (JInt 5)) (\<lambda>k. sop_search S query k))
       else if tool_name = JStr ''sop.read'' then
         bind (py_get arguments ''section_id'' JNull) (\<lambda>secid. sop_read S secid)
       else if tool_name = JStr ''web.search'' then
         bind (py_get arguments ''query'' JNull) (\<lambda>query.
         bind (py_get arguments ''k'' (JInt 5)) (\<lambda>k. web_search_tool S query k))
       else if tool_name = JStr ''cite.validate'' then
         bind (py_get arguments ''text'' JNull) (\<lambda>text.
         bind (py_get arguments ''citations'' (JArr [])) (\<lambda>citations. cite_validate text citations))
       else Inl (ValueError [Lit ''Unknown tool: '', Str tool_name])))"

text \<open>
  Lines 294 to 337, the body of the \<^verbatim>\<open>try\<close>: the lines it prints, in order, and the
  result. The branch for \<^verbatim>\<open>initialize\<close> prints the notification itself.
\<close>

definition initialize_result :: json where
  "initialize_result = JObj
     [(''protocolVersion'', JStr ''2025-03-26''),
      (''serverInfo'', JObj [(''name'', JStr ''SOP MCP Server''), (''version'', JStr ''1.0.0'')]),
      (''capabilities'', JObj [(''tools'', JObj [])])]"

definition dispatch :: "server \<Rightarrow> json \<Rightarrow> json \<Rightarrow> exn + message list \<times> result" where
  "dispatch S method params =
     (if method = JStr ''tools/list'' then Inr ([], Tools tools)
      else if method = JStr ''tools/call'' then
        bind (call_tool S params) (\<lambda>r. Inr ([], r))
      else if method = JStr ''initialize'' then
        Inr ([Notification ''notifications/initialized'' (JObj [])], Initialize initialize_result)
      else Inl (ValueError [Lit ''Unknown method: '', Str method]))"

text \<open>
  \<^verbatim>\<open>handle_request\<close>: the lines printed while it runs, and the response it returns. The
  three \<^verbatim>\<open>request.get\<close> stand before the \<^verbatim>\<open>try\<close>, so a request that is not a dict
  raises out of the function.
\<close>

definition handle_request :: "server \<Rightarrow> json \<Rightarrow> exn + message list \<times> response" where
  "handle_request S request =
     bind (py_get request ''method'' JNull) (\<lambda>method.
     bind (py_get request ''params'' (JObj [])) (\<lambda>params.
     bind (py_get request ''id'' JNull) (\<lambda>request_id.
       case dispatch S method params of
         Inr (printed, r) \<Rightarrow> Inr (printed, Success request_id r)
       | Inl e \<Rightarrow> Inr ([], Failure request_id (- 32000) (str_exn e)))))"

text \<open>
  \<^verbatim>\<open>run\<close>: the lines written to standard output while the loop reads the given lines
  of standard input; after the last one \<^verbatim>\<open>readline\<close> returns the empty string. An
  exception that is neither a JSONDecodeError nor an EOFError leaves the loop, whether
  \<^verbatim>\<open>json.loads\<close> raises it (line 372) or \<^verbatim>\<open>handle_request\<close> (line 375); the outer
  handler (line 398) reports it on standard error and \<^verbatim>\<open>run\<close> returns.
\<close>

fun run :: "server \<Rightarrow> string list \<Rightarrow> message list" where
  "run S [] = []"
| "run S (line # rest) =
     (if strip line = [] then []
      else case json_loads S (strip line) of
        JSONDecodeError msg \<Rightarrow>
          Response (Failure JNull (- 32700) [Lit ''Parse error: '', Lit msg]) # run S rest
      | Raised e \<Rightarrow> []
      | Loaded request \<Rightarrow>
          (case handle_request S request of
             Inl e \<Rightarrow> []
           | Inr (printed, response) \<Rightarrow> printed @ Response response # run S rest))"

section \<open>Auxiliary notions\<close>

text \<open>
  Text with a sentence boundary: one of \<^verbatim>\<open>.!?\<close> directly followed by whitespace.
\<close>

fun terminator_before_space :: "string \<Rightarrow> bool" where
  "terminator_before_space (c # d # cs) =
     ((is_terminator c \<and> isspace d) \<or> terminator_before_space (d # cs))"
| "terminator_before_space _ = False"

text \<open>Pieces put back together with the separators that stood between them.\<close>

fun interleave :: "'a list list \<Rightarrow> 'a list list \<Rightarrow> 'a list" where
  "interleave [] ws = []"
| "interleave (s # ss) [] = s @ interleave ss []"
| "interleave (s # ss) (w # ws) = s @ w @ interleave ss ws"

text \<open>
  The invariant of the dict \<^verbatim>\<open>merged\<close>: no key twice, and every entry filed under its own
  \<^verbatim>\<open>sid\<close>.
\<close>

definition keyed :: "(string \<times> cand) list \<Rightarrow> bool" where
  "keyed d = (distinct (map fst d) \<and> (\<forall>p \<in> set d. sid (snd p) = fst p))"

section \<open>A small server\<close>

text \<open>
  Three sections, of which the third has no node in the graph; the second node was
  created without attributes. The scores stand for what the two indexes return.
\<close>

definition example_docs :: "doc list" where
  "example_docs =
     [\<lparr>meta_section_id = ''SOP-001::PURPOSE'', meta_section_name = JStr ''PURPOSE'', meta_title = JStr ''Safety''\<rparr>,
      \<lparr>meta_section_id = ''SOP-001::PROCEDURE'', meta_section_name = JStr ''PROCEDURE'', meta_title = JStr ''Safety''\<rparr>,
      \<lparr>meta_section_id = ''SOP-002::SCOPE'', meta_section_name = JStr ''SCOPE'', meta_title = JStr ''Storage''\<rparr>]"

definition example_kg :: graph where
  "example_kg =
     [''SOP-001::PURPOSE'' \<mapsto>
        \<lparr>attrs = [(''text'', JStr ''Keep people safe.''), (''title'', JStr ''Safety''),
                  (''sop'', JStr ''SOP-001''), (''section'', JStr ''PURPOSE'')],
         succs = [''SOP-001::PROCEDURE'']\<rparr>,
      ''SOP-001::PROCEDURE'' \<mapsto>
        \<lparr>attrs = [(''text'', JStr ''Wear gloves. Wash hands.'')], succs = []\<rparr>,
      ''SOP-003::NOTES'' \<mapsto> \<lparr>attrs = [], succs = []\<rparr>]"

definition example_bm25 :: "string list \<Rightarrow> rat list" where
  "example_bm25 tokens =
     (if ''scope'' \<in> set tokens then [0, 0, 3]
      else if ''safety'' \<in> set tokens then [1 / 2, 2, 0]
      else [0, 0, 0])"

definition example_dense :: "string \<Rightarrow> json \<Rightarrow> exn + (rat \<times> int) list" where
  "example_dense query k =
     (case k of
        JInt n \<Rightarrow>
          if n \<le> 0 then Inl (LibraryError [Lit ''k must be positive''])
          else Inr (take (nat n)
                 ((if ''scope'' \<in> set (py_split query)
                   then [(9 / 10, 2), (1 / 5, 1), (1 / 10, 0)]
                   else [(4 / 5, 1), (3 / 10, 0), (1 / 10, 2)]) @ replicate (nat n) (- 1, - 1)))
      | _ \<Rightarrow> Inl (TypeError [Lit ''k must be an integer'']))"

definition initialize_line :: string where
  \<open>initialize_line = ''{"jsonrpc":"2.0","id":1,"method":"initialize"}''\<close>

definition search_line :: string where
  \<open>search_line = ''{"jsonrpc":"2.0","id":2,"method":"tools/call","params":{"name":"sop.search","arguments":{"k":3}}}''\<close>

definition deep_line :: string where
  "deep_line = replicate 1000 (CHR ''['')"

definition example_loads :: "string \<Rightarrow> loaded" where
  "example_loads s =
     (if s = initialize_line then
        Loaded (JObj [(''jsonrpc'', JStr ''2.0''), (''id'', JInt 1), (''method'', JStr ''initialize'')])
      else if s = search_line then
        Loaded (JObj [(''jsonrpc'', JStr ''2.0''), (''id'', JInt 2), (''method'', JStr ''tools/call''),
                   (''params'', JObj [(''name'', JStr ''sop.search''),
                                      (''arguments'', JObj [(''k'', JInt 3)])])])
      else if s = deep_line then
        Raised (RecursionError [Lit ''maximum recursion depth exceeded while decoding a JSON array from a unicode string''])
      else JSONDecodeError ''Expecting value: line 1 column 1 (char 0)'')"

definition example_server :: server where
  "example_server =
     \<lparr>doc_meta = example_docs,
      bm25_get_scores = example_bm25,
      dense_search = example_dense,
      kg = example_kg,
      web_search = (\<lambda>query k. JObj [(''query'', query), (''results'', JArr []),
         (''warning'', JStr ''No SERPER_API_KEY configured; web.search is disabled in this environment.'')]),
      json_loads = example_loads\<rparr>"

section \<open>Properties of the citation validator\<close>

lemma bind_Inr [simp]: "bind (Inr x) f = f x"
  by (simp add: bind_def)

lemma bind_Inl [simp]: "bind (Inl e) f = Inl e"
  by (simp add: bind_def)

lemma mapM_total: "(\<And>x. x \<in> set xs \<Longrightarrow> f x = Inr (g x)) \<Longrightarrow> mapM f xs = Inr (map g xs)"
  by (induction xs) simp_all

lemma find_anchor_strings:
  "find_anchor (map JStr as) s = Inr (\<exists>a\<in>set as. anchor_hit a s)"
  by (induction as) simp_all

lemma make_anchors_strings:
  "make_anchors (JArr (map JStr cs)) = Inr (map JStr (rev (remdups (rev cs))))"
proof -
  have "find (\<lambda>c. \<not> hashable c) (map JStr cs) = None"
    by (induction cs) simp_all
  moreover have "remdups (map JStr xs) = map JStr (remdups xs)" for xs
    by (induction xs) auto
  ultimately show ?thesis
    by (simp add: make_anchors_def rev_map)
qed

lemma cite_validate_data_strings:
  "cite_validate_data (JStr text) (JArr (map JStr cs)) =
     Inr \<lparr>coverage_pct = cov_pct (map (\<lambda>s. \<lparr>sentence = s, covered = (\<exists>a\<in>set cs. anchor_hit a s)\<rparr>) (sentences_of text)),
          details = map (\<lambda>s. \<lparr>sentence = s, covered = (\<exists>a\<in>set cs. anchor_hit a s)\<rparr>) (sentences_of text)\<rparr>"
proof -
  let ?anchors = "map JStr (rev (remdups (rev cs)))"
  have "mapM (\<lambda>s. bind (find_anchor ?anchors s) (\<lambda>found. Inr \<lparr>sentence = s, covered = found\<rparr>)) (sentences_of text)
        = Inr (map (\<lambda>s. \<lparr>sentence = s, covered = (\<exists>a\<in>set cs. anchor_hit a s)\<rparr>) (sentences_of text))"
    by (rule mapM_total) (simp add: find_anchor_strings)
  then show ?thesis
    by (simp add: cite_validate_data_def make_anchors_strings)
qed

lemma lower_Nil_iff: "lower a = [] \<longleftrightarrow> a = []"
  by (simp add: lower_def)

lemma anchor_hit_Nil: "anchor_hit a [] \<longleftrightarrow> a = []"
  by (auto simp: anchor_hit_def lower_def)

lemma sentences_of_Nil: "sentences_of [] = [[]]"
  by (simp add: sentences_of_def re_split_def strip_def)

text \<open>
  C3 (as amended). \<^verbatim>\<open>re.split\<close> of the empty string is the list with the empty string, so
  validating the empty text with any list of string citations returns exactly one entry,
  for the empty sentence. It is covered exactly when some citation is the empty string; the
  coverage is then 100, and 0 otherwise. The division is by \<open>max 1 1\<close>, never by zero.
\<close>

theorem cite_validate_empty_text:
  "cite_validate_data (JStr []) (JArr (map JStr cs)) =
     Inr \<lparr>coverage_pct = (if [] \<in> set cs then 100 else 0),
          details = [\<lparr>sentence = [], covered = ([] \<in> set cs)\<rparr>]\<rparr>"
  by (simp add: cite_validate_data_strings sentences_of_Nil anchor_hit_Nil cov_pct_def)

text \<open>
  C3 as stated fails: for the empty text and no citations the result has one entry, not
  none.
\<close>

theorem cite_validate_empty_text_counterexample:
  "cite_validate_data (JStr []) (JArr []) =
     Inr \<lparr>coverage_pct = 0, details = [\<lparr>sentence = [], covered = False\<rparr>]\<rparr> \<and>
   cite_validate_data (JStr []) (JArr []) \<noteq> Inr \<lparr>coverage_pct = 0, details = []\<rparr>"
  by (simp add: cite_validate_data_def make_anchors_def sentences_of_Nil cov_pct_def)

lemma re_split_from_sep:
  "re_split_from p True acc s = re_split_from False False acc (dropWhile isspace s)"
  by (induction s arbitrary: p) simp_all

lemma re_split_from_pieces:
  "\<exists>seps. length (re_split_from p False acc s) = Suc (length seps)
     \<and> (\<forall>w\<in>set seps. w \<noteq> [] \<and> list_all isspace w)
     \<and> interleave (re_split_from p False acc s) seps = acc @ s"
proof (induction s arbitrary: p acc rule: length_induct)
  case (1 s)
  show ?case
  proof (cases s)
    case Nil
    then show ?thesis by simp
  next
    case (Cons c cs)
    show ?thesis
    proof (cases "isspace c \<and> p")
      case True
      let ?rest = "dropWhile isspace cs"
      have "length ?rest < length s"
        using Cons by (simp add: le_imp_less_Suc length_dropWhile_le)
      with 1 obtain seps where
        seps: "length (re_split_from False False [] ?rest) = Suc (length seps)"
          "\<forall>w\<in>set seps. w \<noteq> [] \<and> list_all isspace w"
          "interleave (re_split_from False False [] ?rest) seps = [] @ ?rest"
        by blast
      let ?w = "c # takeWhile isspace cs"
      have split: "re_split_from p False acc s = acc # re_split_from False False [] ?rest"
        using True Cons by (simp add: re_split_from_sep)
      have w: "?w \<noteq> [] \<and> list_all isspace ?w"
        using True by (simp add: list_all_iff) (meson set_takeWhileD)
      have "interleave (re_split_from p False acc s) (?w # seps) = acc @ s"
        unfolding split using seps(3) Cons by simp
      moreover have "length (re_split_from p False acc s) = Suc (length (?w # seps))"
        unfolding split using seps(1) by simp
      moreover have "\<forall>v\<in>set (?w # seps). v \<noteq> [] \<and> list_all isspace v"
        using seps(2) w by simp
      ultimately show ?thesis by blast
    next
      case False
      have "length cs < length s" using Cons by simp
      with 1 obtain seps where
        "length (re_split_from (is_terminator c) False (acc @ [c]) cs) = Suc (length seps)"
        "\<forall>w\<in>set seps. w \<noteq> [] \<and> list_all isspace w"
        "interleave (re_split_from (is_terminator c) False (acc @ [c]) cs) seps = (acc @ [c]) @ cs"
        by blast
      then show ?thesis
        using False Cons by auto
    qed
  qed
qed

lemma re_split_from_single:
  "\<not> terminator_before_space s \<Longrightarrow> \<not> (p \<and> s \<noteq> [] \<and> isspace (hd s))
     \<Longrightarrow> re_split_from p False acc s = [acc @ s]"
proof (induction s arbitrary: p acc)
  case Nil
  then show ?case by simp
next
  case (Cons c cs)
  then show ?case by (cases cs) auto
qed

lemma tbs_append_left: "terminator_before_space xs \<Longrightarrow> terminator_before_space (xs @ ys)"
  by (induction xs rule: terminator_before_space.induct) auto

lemma tbs_Cons: "terminator_before_space xs \<Longrightarrow> terminator_before_space (x # xs)"
  by (cases xs) auto

lemma tbs_append_right: "terminator_before_space ys \<Longrightarrow> terminator_before_space (xs @ ys)"
  by (induction xs) (auto intro: tbs_Cons)

lemma strip_decomp: "\<exists>pre post. text = pre @ strip text @ post"
proof -
  let ?u = "dropWhile isspace text"
  have "text = takeWhile isspace text @ ?u" by simp
  moreover have "?u = rev (dropWhile isspace (rev ?u)) @ rev (takeWhile isspace (rev ?u))"
    by (metis rev_append rev_rev_ident takeWhile_dropWhile_id)
  ultimately have "text = takeWhile isspace text @ strip text @ rev (takeWhile isspace (rev ?u))"
    by (simp add: strip_def)
  then show ?thesis by blast
qed

lemma tbs_strip: "terminator_before_space (strip text) \<Longrightarrow> terminator_before_space text"
proof -
  assume a: "terminator_before_space (strip text)"
  obtain pre post where "text = pre @ strip text @ post"
    using strip_decomp by blast
  then show ?thesis
    using a by (metis tbs_append_left tbs_append_right)
qed

lemma sentences_of_single:
  "\<not> terminator_before_space text \<Longrightarrow> sentences_of text = [strip text]"
  using re_split_from_single[of "strip text" False "[]"] tbs_strip[of "text"]
  by (auto simp: sentences_of_def re_split_def)

lemma details_sentences:
  "cite_validate_data (JStr text) (JArr (map JStr cs)) = Inr r \<Longrightarrow> map sentence (details r) = sentences_of text"
  by (auto simp: cite_validate_data_strings comp_def)

lemma re_split_from_not_Nil: "re_split_from p sep acc s \<noteq> []"
  by (induction s arbitrary: p sep acc) simp_all

lemma re_split_from_prefix: "prefix acc (hd (re_split_from p sep acc s))"
proof (induction s arbitrary: p sep acc)
  case Nil
  then show ?case by simp
next
  case (Cons c cs)
  have "prefix acc (hd (re_split_from (is_terminator c) False (acc @ [c]) cs))"
    using Cons.IH[of "acc @ [c]" "is_terminator c" False] by (rule append_prefixD)
  then show ?case
    using Cons.IH[of acc False True] by simp
qed

lemma tbs_snoc:
  "terminator_before_space (xs @ [c]) \<longleftrightarrow>
     terminator_before_space xs \<or> (xs \<noteq> [] \<and> is_terminator (last xs) \<and> isspace c)"
  by (induction xs rule: terminator_before_space.induct) auto

lemma re_split_from_ends:
  "(\<not> sep \<and> p \<longrightarrow> acc \<noteq> [] \<and> is_terminator (last acc)) \<Longrightarrow>
     \<forall>x\<in>set (butlast (re_split_from p sep acc s)). x \<noteq> [] \<and> is_terminator (last x)"
proof (induction s arbitrary: p sep acc)
  case Nil
  then show ?case by simp
next
  case (Cons c cs)
  have a: "\<forall>x\<in>set (butlast (re_split_from False True acc' cs)). x \<noteq> [] \<and> is_terminator (last x)"
    for acc'
    by (rule Cons.IH) simp
  have b: "\<forall>x\<in>set (butlast (re_split_from (is_terminator c) False (acc @ [c]) cs)).
      x \<noteq> [] \<and> is_terminator (last x)"
    by (rule Cons.IH) simp
  show ?case
    using a[of acc] a[of "[]"] b Cons.prems by (simp add: re_split_from_not_Nil)
qed

lemma re_split_from_whole:
  "\<not> terminator_before_space acc \<Longrightarrow> (\<not> sep \<and> acc \<noteq> [] \<and> is_terminator (last acc) \<longrightarrow> p) \<Longrightarrow>
     \<forall>x\<in>set (re_split_from p sep acc s). \<not> terminator_before_space x"
proof (induction s arbitrary: p sep acc)
  case Nil
  then show ?case by simp
next
  case (Cons c cs)
  have a: "\<forall>x\<in>set (re_split_from False True acc cs). \<not> terminator_before_space x"
    using Cons.prems(1) by (rule Cons.IH) simp
  have b: "\<forall>x\<in>set (re_split_from False True [] cs). \<not> terminator_before_space x"
    by (rule Cons.IH) simp_all
  have c: "\<forall>x\<in>set (re_split_from (is_terminator c) False (acc @ [c]) cs). \<not> terminator_before_space x"
    if "\<not> (isspace c \<and> sep)" "\<not> (isspace c \<and> p)"
  proof (rule Cons.IH)
    show "\<not> terminator_before_space (acc @ [c])"
      using that Cons.prems by (auto simp: tbs_snoc)
    show "\<not> False \<and> acc @ [c] \<noteq> [] \<and> is_terminator (last (acc @ [c])) \<longrightarrow> is_terminator c"
      by simp
  qed
  show ?case
    using a b c Cons.prems(1) by simp
qed

lemma re_split_from_starts:
  "s = [] \<or> \<not> isspace (last s) \<Longrightarrow>
     (\<forall>x\<in>set (tl (re_split_from p sep acc s)). x \<noteq> [] \<and> \<not> isspace (hd x))
     \<and> (sep \<and> acc = [] \<and> s \<noteq> [] \<longrightarrow>
          hd (re_split_from p sep acc s) \<noteq> [] \<and> \<not> isspace (hd (hd (re_split_from p sep acc s))))"
proof (induction s arbitrary: p sep acc)
  case Nil
  then show ?case by simp
next
  case (Cons c cs)
  have cs: "cs = [] \<or> \<not> isspace (last cs)"
    using Cons.prems by (cases cs) auto
  have ne: "cs \<noteq> []" if "isspace c"
    using Cons.prems that by (cases cs) auto
  show ?case
  proof (cases "isspace c \<and> sep")
    case True
    then show ?thesis
      using Cons.IH[OF cs, of False True acc] ne by simp
  next
    case False
    note nsep = False
    show ?thesis
    proof (cases "isspace c \<and> p")
      case True
      let ?R = "re_split_from False True [] cs"
      have IH: "(\<forall>x\<in>set (tl ?R). x \<noteq> [] \<and> \<not> isspace (hd x))
          \<and> hd ?R \<noteq> [] \<and> \<not> isspace (hd (hd ?R))"
        using Cons.IH[OF cs, of False True "[]"] ne True by simp
      have "?R = hd ?R # tl ?R"
        by (simp add: re_split_from_not_Nil)
      then have "set ?R = insert (hd ?R) (set (tl ?R))"
        by (metis list.simps(15))
      with IH have "\<forall>x\<in>set ?R. x \<noteq> [] \<and> \<not> isspace (hd x)"
        by simp
      then show ?thesis
        using True nsep by simp
    next
      case False
      let ?R = "re_split_from (is_terminator c) False (acc @ [c]) cs"
      have t: "\<forall>x\<in>set (tl ?R). x \<noteq> [] \<and> \<not> isspace (hd x)"
        using Cons.IH[OF cs, of "is_terminator c" False "acc @ [c]"] by simp
      have "prefix (acc @ [c]) (hd ?R)"
        by (rule re_split_from_prefix)
      then have h: "acc = [] \<longrightarrow> hd ?R \<noteq> [] \<and> hd (hd ?R) = c"
        by (auto simp: prefix_def)
      show ?thesis
        using t h False nsep by auto
    qed
  qed
qed

lemma strip_last: "strip t = [] \<or> \<not> isspace (last (strip t))"
proof (cases "strip t = []")
  case True
  then show ?thesis by simp
next
  case False
  let ?u = "dropWhile isspace (rev (dropWhile isspace t))"
  have u: "?u \<noteq> []"
    using False by (simp add: strip_def)
  then have "\<not> isspace (hd ?u)"
    by (rule hd_dropWhile)
  then show ?thesis
    using u by (simp add: strip_def last_rev)
qed

lemma re_split_from_through:
  "\<not> terminator_before_space (acc @ x) \<Longrightarrow>
     re_split_from (acc \<noteq> [] \<and> is_terminator (last acc)) False acc (x @ s) =
     re_split_from (acc @ x \<noteq> [] \<and> is_terminator (last (acc @ x))) False (acc @ x) s"
proof (induction x arbitrary: acc)
  case Nil
  then show ?case by simp
next
  case (Cons c x)
  have nb: "\<not> terminator_before_space (acc @ [c])"
    using Cons.prems tbs_append_left[of "acc @ [c]" x] by auto
  then have ns: "\<not> (isspace c \<and> acc \<noteq> [] \<and> is_terminator (last acc))"
    by (auto simp: tbs_snoc)
  have "re_split_from (acc \<noteq> [] \<and> is_terminator (last acc)) False acc ((c # x) @ s) =
      re_split_from (is_terminator c) False (acc @ [c]) (x @ s)"
    using ns by auto
  also have "\<dots> = re_split_from ((acc @ [c]) \<noteq> [] \<and> is_terminator (last (acc @ [c]))) False
      (acc @ [c]) (x @ s)"
    by simp
  also have "\<dots> = re_split_from ((acc @ [c]) @ x \<noteq> [] \<and> is_terminator (last ((acc @ [c]) @ x))) False
      ((acc @ [c]) @ x) s"
    using Cons.prems by (intro Cons.IH) simp
  finally show ?case by simp
qed

lemma dropWhile_append_all:
  "list_all P w \<Longrightarrow> dropWhile P (w @ t) = dropWhile P t"
  by (induction w) simp_all

lemma segmentation_determined:
  assumes "length R = Suc (length seps)"
    and "\<forall>w\<in>set seps. w \<noteq> [] \<and> list_all isspace w"
    and "\<forall>x\<in>set (butlast R). x \<noteq> [] \<and> is_terminator (last x)"
    and "\<forall>x\<in>set (tl R). x \<noteq> [] \<and> \<not> isspace (hd x)"
    and "\<forall>x\<in>set R. \<not> terminator_before_space x"
  shows "re_split (interleave R seps) = R"
  using assms
proof (induction seps arbitrary: R)
  case Nil
  then obtain x where R: "R = [x]"
    by (cases R) auto
  have "re_split_from False False [] x = [[] @ x]"
    using Nil.prems(5) R by (intro re_split_from_single) simp_all
  then show ?case
    using R by (simp add: re_split_def)
next
  case (Cons w seps)
  then obtain x R' where R: "R = x # R'" and len: "length R' = Suc (length seps)"
    by (cases R) auto
  then obtain y R'' where R': "R' = y # R''"
    by (cases R') auto
  let ?T = "interleave R' seps"
  have x: "x \<noteq> [] \<and> is_terminator (last x)" and nbx: "\<not> terminator_before_space x"
    using Cons.prems(3,5) R R' by simp_all
  obtain c w' where w: "w = c # w'" and c: "isspace c" and w': "list_all isspace w'"
    using Cons.prems(2) by (cases w) auto
  have y: "y \<noteq> [] \<and> \<not> isspace (hd y)"
    using Cons.prems(4) R R' by simp
  have T: "?T \<noteq> [] \<and> \<not> isspace (hd ?T)"
    using y R' by (cases seps) auto
  have dw: "dropWhile isspace (w' @ ?T) = ?T"
    using w' T by (cases ?T) (simp_all add: dropWhile_append_all)
  have IH: "re_split ?T = R'"
  proof (rule Cons.IH[OF len])
    show "\<forall>w\<in>set seps. w \<noteq> [] \<and> list_all isspace w"
      using Cons.prems(2) by simp
    show "\<forall>x\<in>set (butlast R'). x \<noteq> [] \<and> is_terminator (last x)"
      using Cons.prems(3) R R' by simp
    show "\<forall>x\<in>set (tl R'). x \<noteq> [] \<and> \<not> isspace (hd x)"
      using Cons.prems(4) R R' by simp
    show "\<forall>x\<in>set R'. \<not> terminator_before_space x"
      using Cons.prems(5) R by simp
  qed
  have "re_split_from False False [] (x @ (w @ ?T)) =
      re_split_from ([] @ x \<noteq> [] \<and> is_terminator (last ([] @ x))) False ([] @ x) (w @ ?T)"
    using re_split_from_through[of "[]" x "w @ ?T"] nbx by simp
  also have "\<dots> = re_split_from True False x (c # w' @ ?T)"
    using x w by simp
  also have "\<dots> = x # re_split_from False False [] (dropWhile isspace (w' @ ?T))"
    using c by (simp add: re_split_from_sep)
  also have "\<dots> = x # R'"
    using dw IH by (simp add: re_split_def)
  finally show ?case
    using R by (simp add: re_split_def)
qed

lemma sentences_of_cut:
  "(\<forall>s\<in>set (butlast (sentences_of t)). s \<noteq> [] \<and> is_terminator (last s))
   \<and> (\<forall>s\<in>set (tl (sentences_of t)). s \<noteq> [] \<and> \<not> isspace (hd s))
   \<and> (\<forall>s\<in>set (sentences_of t). \<not> terminator_before_space s)"
proof (intro conjI)
  show "\<forall>s\<in>set (butlast (sentences_of t)). s \<noteq> [] \<and> is_terminator (last s)"
    unfolding sentences_of_def re_split_def by (rule re_split_from_ends) simp
  show "\<forall>s\<in>set (tl (sentences_of t)). s \<noteq> [] \<and> \<not> isspace (hd s)"
    unfolding sentences_of_def re_split_def
    using re_split_from_starts[where p = False and sep = False and acc = "[]", OF strip_last]
    by (rule conjunct1)
  show "\<forall>s\<in>set (sentences_of t). \<not> terminator_before_space s"
    unfolding sentences_of_def re_split_def by (rule re_split_from_whole) simp_all
qed

text \<open>
  C10 (as amended). For every text and every list of string citations the validator returns
  a result. If the text has none of \<^verbatim>\<open>.!?\<close> directly followed by whitespace, there is
  exactly one entry and its sentence is the stripped text. In general the sentences, in
  order, are the stripped text cut at every run of whitespace that follows one of
  \<^verbatim>\<open>.!?\<close>: there are non-empty runs of whitespace, one fewer than the sentences, such
  that the sentences put back together with these runs between them give the stripped
  text; every sentence but the last ends in one of \<^verbatim>\<open>.!?\<close>, every sentence but the first
  starts with a character that is not whitespace, and no sentence has one of \<^verbatim>\<open>.!?\<close>
  directly followed by whitespace inside it. Only those runs are left out, and by
  \<open>segmentation_determined\<close> no other list of sentences meets these conditions.
\<close>

theorem cite_validate_segmentation:
  "\<exists>r seps. cite_validate_data (JStr text) (JArr (map JStr cs)) = Inr r
     \<and> (\<not> terminator_before_space text \<longrightarrow> map sentence (details r) = [strip text])
     \<and> length (details r) = Suc (length seps)
     \<and> (\<forall>w\<in>set seps. w \<noteq> [] \<and> list_all isspace w)
     \<and> interleave (map sentence (details r)) seps = strip text
     \<and> (\<forall>s\<in>set (butlast (map sentence (details r))). s \<noteq> [] \<and> is_terminator (last s))
     \<and> (\<forall>s\<in>set (tl (map sentence (details r))). s \<noteq> [] \<and> \<not> isspace (hd s))
     \<and> (\<forall>s\<in>set (map sentence (details r)). \<not> terminator_before_space s)"
proof -
  obtain r where r: "cite_validate_data (JStr text) (JArr (map JStr cs)) = Inr r"
    by (simp add: cite_validate_data_strings)
  then have s: "map sentence (details r) = sentences_of text"
    by (rule details_sentences)
  obtain seps where seps:
    "length (sentences_of text) = Suc (length seps)"
    "\<forall>w\<in>set seps. w \<noteq> [] \<and> list_all isspace w"
    "interleave (sentences_of text) seps = strip text"
    using re_split_from_pieces[of False "[]" "strip text"]
    by (auto simp: sentences_of_def re_split_def)
  have len: "length (details r) = Suc (length seps)"
    using s seps(1) by (metis length_map)
  have one: "\<not> terminator_before_space text \<longrightarrow> map sentence (details r) = [strip text]"
    using s sentences_of_single by simp
  note cut = sentences_of_cut[of "text", folded s]
  show ?thesis
    apply (rule exI[of _ r])
    apply (rule exI[of _ seps])
    apply (intro conjI)
           apply (rule r)
          apply (rule one)
         apply (rule len)
        apply (rule seps(2))
       apply (simp only: s seps(3))
      apply (rule cut[THEN conjunct1])
     apply (rule cut[THEN conjunct2, THEN conjunct1])
    apply (rule cut[THEN conjunct2, THEN conjunct2])
    done
qed

text \<open>
  The text \<^verbatim>\<open>Wear gloves\<close> has no sentence boundary and comes back as one sentence. The
  text \<^verbatim>\<open>A. B.\<close> has one: the first sentence ends in a full stop, the second starts
  with a letter, and a non-empty run of whitespace between them restores the text.
\<close>

theorem cite_validate_segmentation_witness:
  "\<not> terminator_before_space ''Wear gloves''
   \<and> (\<exists>r. cite_validate_data (JStr ''Wear gloves'') (JArr []) = Inr r
          \<and> map sentence (details r) = [''Wear gloves''])
   \<and> (\<exists>w. w \<noteq> [] \<and> list_all isspace w \<and> ''A.'' @ w @ ''B.'' = ''A. B.''
          \<and> is_terminator (last ''A.'') \<and> \<not> isspace (hd ''B.''))"
proof -
  define t where "t = ''Wear gloves''"
  have a: "\<not> terminator_before_space t"
    unfolding t_def by (simp add: is_terminator_def)
  have b: "strip t = t"
    unfolding t_def by (simp add: strip_def isspace_def)
  from cite_validate_segmentation[of t "[]"] obtain r seps where all:
    "cite_validate_data (JStr t) (JArr (map JStr [])) = Inr r
       \<and> (\<not> terminator_before_space t \<longrightarrow> map sentence (details r) = [strip t])
       \<and> length (details r) = Suc (length seps)
       \<and> (\<forall>w\<in>set seps. w \<noteq> [] \<and> list_all isspace w)
       \<and> interleave (map sentence (details r)) seps = strip t
       \<and> (\<forall>s\<in>set (butlast (map sentence (details r))). s \<noteq> [] \<and> is_terminator (last s))
       \<and> (\<forall>s\<in>set (tl (map sentence (details r))). s \<noteq> [] \<and> \<not> isspace (hd s))
       \<and> (\<forall>s\<in>set (map sentence (details r)). \<not> terminator_before_space s)"
    by (elim exE)
  from all have r: "cite_validate_data (JStr t) (JArr (map JStr [])) = Inr r"
    by (rule conjunct1)
  from all have s: "\<not> terminator_before_space t \<longrightarrow> map sentence (details r) = [strip t]"
    by (rule conjunct1[OF conjunct2])
  from s a have "map sentence (details r) = [strip t]"
    by (rule mp)
  then have "map sentence (details r) = [t]"
    by (simp only: b)
  moreover from r have "cite_validate_data (JStr t) (JArr []) = Inr r"
    by (simp only: list.map)
  ultimately have one: "\<exists>r. cite_validate_data (JStr t) (JArr []) = Inr r \<and> map sentence (details r) = [t]"
    by (intro exI[of _ r] conjI)

  define u where "u = ''A. B.''"
  define sA where "sA = ''A.''"
  define sB where "sB = ''B.''"
  have e: "cite_validate_data (JStr u) (JArr (map JStr [])) =
      Inr \<lparr>coverage_pct = 0, details = [\<lparr>sentence = sA, covered = False\<rparr>,
                                        \<lparr>sentence = sB, covered = False\<rparr>]\<rparr>"
    unfolding u_def sA_def sB_def
    by (simp add: cite_validate_data_def make_anchors_def sentences_of_def re_split_def
        strip_def isspace_def is_terminator_def cov_pct_def)
  have su: "strip u = u"
    unfolding u_def by (simp add: strip_def isspace_def)
  from cite_validate_segmentation[of u "[]"] obtain r' seps' where all':
    "cite_validate_data (JStr u) (JArr (map JStr [])) = Inr r'
       \<and> (\<not> terminator_before_space u \<longrightarrow> map sentence (details r') = [strip u])
       \<and> length (details r') = Suc (length seps')
       \<and> (\<forall>w\<in>set seps'. w \<noteq> [] \<and> list_all isspace w)
       \<and> interleave (map sentence (details r')) seps' = strip u
       \<and> (\<forall>s\<in>set (butlast (map sentence (details r'))). s \<noteq> [] \<and> is_terminator (last s))
       \<and> (\<forall>s\<in>set (tl (map sentence (details r'))). s \<noteq> [] \<and> \<not> isspace (hd s))
       \<and> (\<forall>s\<in>set (map sentence (details r')). \<not> terminator_before_space s)"
    by (elim exE)
  note c1 = all'[THEN conjunct1]
  note c3 = all'[THEN conjunct2, THEN conjunct2, THEN conjunct1]
  note c4 = all'[THEN conjunct2, THEN conjunct2, THEN conjunct2, THEN conjunct1]
  note c5 = all'[THEN conjunct2, THEN conjunct2, THEN conjunct2, THEN conjunct2, THEN conjunct1]
  note c6 = all'[THEN conjunct2, THEN conjunct2, THEN conjunct2, THEN conjunct2, THEN conjunct2,
      THEN conjunct1]
  note c7 = all'[THEN conjunct2, THEN conjunct2, THEN conjunct2, THEN conjunct2, THEN conjunct2,
      THEN conjunct2, THEN conjunct1]
  have d: "details r' = [\<lparr>sentence = sA, covered = False\<rparr>, \<lparr>sentence = sB, covered = False\<rparr>]"
    using c1 e by simp
  have m: "map sentence (details r') = [sA, sB]"
    by (simp add: d)
  have "length seps' = 1"
    using c3 d by simp
  then obtain w where w: "seps' = [w]"
    by (cases seps') auto
  have w1: "w \<noteq> [] \<and> list_all isspace w"
    using c4 w by simp
  have w2: "sA @ w @ sB = u"
    using c5 m w su by simp
  have w3: "is_terminator (last sA)"
    using c6 m by simp
  have w4: "\<not> isspace (hd sB)"
    using c7 m by simp
  have two: "\<exists>w. w \<noteq> [] \<and> list_all isspace w \<and> sA @ w @ sB = u
      \<and> is_terminator (last sA) \<and> \<not> isspace (hd sB)"
    using w1 w2 w3 w4 by (intro exI[of _ w] conjI) simp_all
  from a one two have "\<not> terminator_before_space t
      \<and> (\<exists>r. cite_validate_data (JStr t) (JArr []) = Inr r \<and> map sentence (details r) = [t])
      \<and> (\<exists>w. w \<noteq> [] \<and> list_all isspace w \<and> sA @ w @ sB = u
            \<and> is_terminator (last sA) \<and> \<not> isspace (hd sB))"
    by (intro conjI)
  then show ?thesis
    unfolding t_def u_def sA_def sB_def .
qed

text \<open>
  C10 as stated fails: the sentences of \<^verbatim>\<open>A. B.\<close> are \<^verbatim>\<open>A.\<close> and \<^verbatim>\<open>B.\<close>, and the
  space between them is in neither.
\<close>

theorem cite_validate_partition_counterexample:
  "cite_validate_data (JStr ''A. B.'') (JArr []) =
     Inr \<lparr>coverage_pct = 0, details = [\<lparr>sentence = ''A.'', covered = False\<rparr>,
                                       \<lparr>sentence = ''B.'', covered = False\<rparr>]\<rparr> \<and>
   concat [''A.'', ''B.''] \<noteq> strip ''A. B.''"
  by (simp add: cite_validate_data_def make_anchors_def sentences_of_def re_split_def
      strip_def isspace_def is_terminator_def cov_pct_def)

text \<open>
  C6. For every text and every list of string citations the validator returns a result whose
  details list the sentences of the text in their order, and a sentence is marked covered
  exactly when some citation, lowercased, is a substring of the lowercased sentence, or
  starts with \<^verbatim>\<open>http\<close> and is a substring of the sentence as it stands.
\<close>

theorem cite_validate_covered:
  "cite_validate_data (JStr text) (JArr (map JStr cs)) =
     (let ds = map (\<lambda>s. \<lparr>sentence = s,
                           covered = (\<exists>a\<in>set cs. sublist (lower a) (lower s) \<or>
                                                    (prefix ''http'' a \<and> sublist a s))\<rparr>)
                   (sentences_of text)
      in Inr \<lparr>coverage_pct = cov_pct ds, details = ds\<rparr>)"
  by (simp add: cite_validate_data_strings anchor_hit_def Let_def)

text \<open>Two sentences and the citation \<^verbatim>\<open>sop-001\<close>, which the first one contains in capitals.\<close>

theorem cite_validate_covered_witness:
  "cite_validate_data (JStr ''Use SOP-001 now. Then rest.'') (JArr [JStr ''sop-001'']) =
     Inr \<lparr>coverage_pct = 50,
          details = [\<lparr>sentence = ''Use SOP-001 now.'', covered = True\<rparr>,
                     \<lparr>sentence = ''Then rest.'', covered = False\<rparr>]\<rparr>"
proof -
  have s: "sentences_of ''Use SOP-001 now. Then rest.'' = [''Use SOP-001 now.'', ''Then rest.'']"
    by (simp add: sentences_of_def re_split_def strip_def isspace_def is_terminator_def)
  have h1: "sublist (lower ''sop-001'') (lower ''Use SOP-001 now.'')"
    by code_simp
  have h2: "\<not> sublist (lower ''sop-001'') (lower ''Then rest.'')"
    by code_simp
  have h3: "\<not> prefix ''http'' ''sop-001''"
    by simp
  show ?thesis
    using cite_validate_covered[of "''Use SOP-001 now. Then rest.''" "[''sop-001'']"]
    by (simp add: s h1 h2 h3 Let_def cov_pct_def)
qed

section \<open>Properties of the section reader\<close>

text \<open>
  C7 (as amended). Reading a section id that has no node in the graph succeeds, with a
  content that says the id was not found. Reading the id of a node that has at least one
  attribute succeeds with the dict of \<^verbatim>\<open>section_id\<close>, \<^verbatim>\<open>text\<close>, \<^verbatim>\<open>title\<close>,
  \<^verbatim>\<open>sop\<close> and \<^verbatim>\<open>section\<close>, each taken from the node's attributes; a missing text
  reads as the empty string, a missing other attribute as \<^verbatim>\<open>None\<close>.
\<close>

theorem sop_read_result:
  "(kg S s = None \<longrightarrow>
      sop_read S (JStr s) =
        Inr (Content [Lit ''Error: section_id '', Lit [CHR 0x27], Str (JStr s), Lit [CHR 0x27],
                      Lit '' not found'']))
   \<and> (\<forall>nd. kg S s = Some nd \<and> attrs nd \<noteq> [] \<longrightarrow>
      sop_read S (JStr s) =
        Inr (Content [Dumps (JObj
          [(''section_id'', JStr s),
           (''text'', dict_get (attrs nd) ''text'' (JStr [])),
           (''title'', dict_get (attrs nd) ''title'' JNull),
           (''sop'', dict_get (attrs nd) ''sop'' JNull),
           (''section'', dict_get (attrs nd) ''section'' JNull)])]))"
  by (simp add: sop_read_def not_found_def result_data_def)

text \<open>
  In the small server \<^verbatim>\<open>nope\<close> is no node, and \<^verbatim>\<open>SOP-001::PURPOSE\<close> is a node with
  all four attributes.
\<close>

theorem sop_read_result_witness:
  "sop_read example_server (JStr ''nope'') =
     Inr (Content [Lit ''Error: section_id '', Lit [CHR 0x27], Str (JStr ''nope''), Lit [CHR 0x27],
                   Lit '' not found''])
   \<and> sop_read example_server (JStr ''SOP-001::PURPOSE'') =
     Inr (Content [Dumps (JObj
       [(''section_id'', JStr ''SOP-001::PURPOSE''),
        (''text'', JStr ''Keep people safe.''),
        (''title'', JStr ''Safety''),
        (''sop'', JStr ''SOP-001''),
        (''section'', JStr ''PURPOSE'')])])"
proof -
  let ?nd = "\<lparr>attrs = [(''text'', JStr ''Keep people safe.''), (''title'', JStr ''Safety''),
                       (''sop'', JStr ''SOP-001''), (''section'', JStr ''PURPOSE'')],
               succs = [''SOP-001::PROCEDURE'']\<rparr>"
  have a: "kg example_server ''nope'' = None"
    by (simp add: example_server_def example_kg_def)
  have b: "kg example_server ''SOP-001::PURPOSE'' = Some ?nd \<and> attrs ?nd \<noteq> []"
    by (simp add: example_server_def example_kg_def)
  note t1 = sop_read_result[of example_server "''nope''", THEN conjunct1, THEN mp, OF a]
  note t2 = sop_read_result[of example_server "''SOP-001::PURPOSE''", THEN conjunct2, THEN spec,
      THEN mp, OF b]
  show ?thesis
    using t1 t2 by (simp add: dict_get_def)
qed

text \<open>
  C7 as stated fails: \<^verbatim>\<open>SOP-003::NOTES\<close> is a node of the graph, with no attributes, and
  reading it reports that the id was not found instead of returning its fields.
\<close>

theorem sop_read_empty_node_counterexample:
  "kg example_server ''SOP-003::NOTES'' = Some \<lparr>attrs = [], succs = []\<rparr>
   \<and> sop_read example_server (JStr ''SOP-003::NOTES'') =
       Inr (Content [Lit ''Error: section_id '', Lit [CHR 0x27], Str (JStr ''SOP-003::NOTES''),
                     Lit [CHR 0x27], Lit '' not found''])
   \<and> sop_read example_server (JStr ''SOP-003::NOTES'') \<noteq>
       Inr (Content [Dumps (JObj
         [(''section_id'', JStr ''SOP-003::NOTES''), (''text'', JStr []), (''title'', JNull),
          (''sop'', JNull), (''section'', JNull)])])"
  by (simp add: example_server_def example_kg_def sop_read_def not_found_def)

section \<open>Properties of the request dispatcher\<close>

lemma handle_request_dict:
  "handle_request S (JObj request) =
     (case dispatch S (dict_get request ''method'' JNull) (dict_get request ''params'' (JObj [])) of
        Inr (printed, r) \<Rightarrow> Inr (printed, Success (dict_get request ''id'' JNull) r)
      | Inl e \<Rightarrow> Inr ([], Failure (dict_get request ''id'' JNull) (- 32000) (str_exn e)))"
  by (simp add: handle_request_def)

lemma run_request:
  "strip line \<noteq> [] \<Longrightarrow> json_loads S (strip line) = Loaded request
     \<Longrightarrow> handle_request S request = Inr (printed, response)
     \<Longrightarrow> run S (line # rest) = printed @ Response response # run S rest"
  by simp

lemma run_other_exception:
  "strip line \<noteq> [] \<Longrightarrow> json_loads S (strip line) = Raised e \<Longrightarrow> run S (line # rest) = []"
  by simp

lemma strip_id:
  assumes "s \<noteq> []" and "\<not> isspace (hd s)" and "\<not> isspace (last s)"
  shows "strip s = s"
proof -
  have "dropWhile isspace s = s"
    using assms(1,2) by (cases s) simp_all
  moreover have "dropWhile isspace (rev s) = rev s"
    using assms(1,3) by (cases "rev s") (simp_all add: last_rev[symmetric] del: last_rev)
  ultimately show ?thesis
    by (simp add: strip_def)
qed

lemma strip_deep_line: "strip deep_line = deep_line"
proof (rule strip_id)
  show "deep_line \<noteq> []"
    by (simp add: deep_line_def)
  show "\<not> isspace (hd deep_line)"
    by (simp add: deep_line_def isspace_def)
  show "\<not> isspace (last deep_line)"
    by (simp add: deep_line_def isspace_def)
qed

lemma neq_deep_line: "length s \<noteq> 1000 \<Longrightarrow> s \<noteq> deep_line"
  by (auto simp: deep_line_def)

text \<open>
  C8 (as amended). A line that is not blank and on which \<^verbatim>\<open>json.loads\<close> raises
  JSONDecodeError makes the loop write exactly one response, an error with code -32700 and
  the id \<^verbatim>\<open>None\<close>, and go on with the lines that follow. A blank line ends the loop with
  nothing written, and so does the end of the input.
\<close>

theorem run_parse_error:
  "(\<forall>msg. strip line \<noteq> [] \<and> json_loads S (strip line) = JSONDecodeError msg \<longrightarrow>
      run S (line # rest) =
        Response (Failure JNull (- 32700) [Lit ''Parse error: '', Lit msg]) # run S rest)
   \<and> (strip line = [] \<longrightarrow> run S (line # rest) = [])
   \<and> run S [] = []"
  by simp

text \<open>
  The line \<^verbatim>\<open>not json\<close> is answered with a parse error; the blank line after it ends the
  loop, so the request on the third line is never read.
\<close>

theorem run_parse_error_witness:
  "run example_server [''not json'', '' '', initialize_line] =
     [Response (Failure JNull (- 32700)
        [Lit ''Parse error: '', Lit ''Expecting value: line 1 column 1 (char 0)''])]"
proof -
  have s1: "strip ''not json'' = ''not json''"
    by (simp add: strip_def isspace_def)
  have d: "''not json'' \<noteq> deep_line"
    by (rule neq_deep_line) simp
  have l: "json_loads example_server ''not json'' = JSONDecodeError ''Expecting value: line 1 column 1 (char 0)''"
    by (simp add: example_server_def example_loads_def initialize_line_def search_line_def d)
  have a: "strip ''not json'' \<noteq> [] \<and>
      json_loads example_server (strip ''not json'') = JSONDecodeError ''Expecting value: line 1 column 1 (char 0)''"
    by (simp add: s1 l)
  have b: "strip '' '' = []"
    by (simp add: strip_def isspace_def)
  note t1 = run_parse_error[of "''not json''" example_server "['' '', initialize_line]",
      THEN conjunct1, THEN spec, THEN mp, OF a]
  note t2 = run_parse_error[of "'' ''" example_server "[initialize_line]",
      THEN conjunct2, THEN conjunct1, THEN mp, OF b]
  show ?thesis
    by (simp only: t1 t2)
qed

text \<open>
  C8 as stated fails: a line of a thousand opening brackets is not blank and is not valid
  JSON, but \<^verbatim>\<open>json.loads\<close> gives up on it with RecursionError, which the handler for
  JSONDecodeError does not catch. The loop ends there: no response is written, and the
  request on the next line is never read.
\<close>

theorem run_parse_error_counterexample:
  "strip deep_line \<noteq> []
   \<and> json_loads example_server (strip deep_line) =
       Raised (RecursionError
         [Lit ''maximum recursion depth exceeded while decoding a JSON array from a unicode string''])
   \<and> run example_server [deep_line, initialize_line] = []"
proof -
  have n: "strip deep_line \<noteq> []"
    by (simp add: strip_deep_line) (simp add: deep_line_def)
  have i: "deep_line \<noteq> initialize_line"
    by (rule neq_deep_line[symmetric]) (simp add: initialize_line_def)
  have s: "deep_line \<noteq> search_line"
    by (rule neq_deep_line[symmetric]) (simp add: search_line_def)
  have l: "json_loads example_server (strip deep_line) =
       Raised (RecursionError
         [Lit ''maximum recursion depth exceeded while decoding a JSON array from a unicode string''])"
    by (simp add: strip_deep_line example_server_def example_loads_def i s)
  from n l have "run example_server (deep_line # [initialize_line]) = []"
    by (rule run_other_exception)
  with n l show ?thesis
    by (intro conjI)
qed

lemma sop_search_no_query:
  "sop_search S JNull k = Inl (no_attribute JNull ''split'')"
  by (simp add: sop_search_def sop_search_out_def)

text \<open>
  C9. A \<^verbatim>\<open>tools/call\<close> request for \<^verbatim>\<open>sop.search\<close> whose arguments have no \<^verbatim>\<open>query\<close>
  is not rejected by the dispatcher: it calls the handler with \<^verbatim>\<open>None\<close> as the query. The
  handler raises at \<^verbatim>\<open>query.split()\<close>, the dispatcher turns the exception into an
  error response with code -32000 and the id of the request, and the loop goes on with the
  lines that follow.
\<close>

theorem missing_query_not_validated:
  assumes "dict_get request ''method'' JNull = JStr ''tools/call''"
    and "dict_get request ''params'' (JObj []) = JObj params"
    and "dict_get params ''name'' JNull = JStr ''sop.search''"
    and "dict_get params ''arguments'' (JObj []) = JObj arguments"
    and "map_of arguments ''query'' = None"
  shows "call_tool S (JObj params) = sop_search S JNull (dict_get arguments ''k'' (JInt 5))
    \<and> sop_search S JNull (dict_get arguments ''k'' (JInt 5)) =
         Inl (no_attribute JNull ''split'')
    \<and> handle_request S (JObj request) =
         Inr ([], Failure (dict_get request ''id'' JNull) (- 32000)
                    (str_exn (no_attribute JNull ''split'')))
    \<and> (strip line \<noteq> [] \<and> json_loads S (strip line) = Loaded (JObj request) \<longrightarrow>
         run S (line # rest) =
           Response (Failure (dict_get request ''id'' JNull) (- 32000)
                       (str_exn (no_attribute JNull ''split''))) # run S rest)"
proof -
  have q: "dict_get arguments ''query'' JNull = JNull"
    using assms(5) by (simp add: dict_get_def)
  have c: "call_tool S (JObj params) = sop_search S JNull (dict_get arguments ''k'' (JInt 5))"
    using assms(3,4) q by (simp add: call_tool_def)
  have d: "dispatch S (JStr ''tools/call'') (JObj params) =
      Inl (no_attribute JNull ''split'')"
    by (simp add: dispatch_def c sop_search_no_query)
  have h: "handle_request S (JObj request) =
      Inr ([], Failure (dict_get request ''id'' JNull) (- 32000)
                 (str_exn (no_attribute JNull ''split'')))"
    by (simp add: handle_request_dict assms(1,2) d)
  show ?thesis
    using c h by (simp add: sop_search_no_query)
qed

text \<open>
  The request of \<^verbatim>\<open>search_line\<close> has the id 2 and the arguments \<^verbatim>\<open>{"k": 3}\<close>.
\<close>

theorem missing_query_not_validated_witness:
  "run example_server [search_line] =
     [Response (Failure (JInt 2) (- 32000)
        [Lit (quoted ''NoneType''), Lit '' object has no attribute '', Lit (quoted ''split'')])]"
proof -
  define request where "request = [(''jsonrpc'', JStr ''2.0''), (''id'', JInt 2),
     (''method'', JStr ''tools/call''),
     (''params'', JObj [(''name'', JStr ''sop.search''), (''arguments'', JObj [(''k'', JInt 3)])])]"
  have s: "strip search_line = search_line"
    by (simp add: strip_def isspace_def search_line_def)
  have l: "json_loads example_server search_line = Loaded (JObj request)"
    by (simp add: example_server_def example_loads_def initialize_line_def search_line_def
        request_def)
  have a: "strip search_line \<noteq> [] \<and> json_loads example_server (strip search_line) = Loaded (JObj request)"
    by (simp add: s l) (simp add: search_line_def)
  have i: "dict_get request ''id'' JNull = JInt 2"
    by (simp add: request_def dict_get_def)
  have "run example_server (search_line # []) =
      Response (Failure (dict_get request ''id'' JNull) (- 32000)
                  (str_exn (no_attribute JNull ''split''))) # run example_server []"
    by (rule missing_query_not_validated[of request
          "[(''name'', JStr ''sop.search''), (''arguments'', JObj [(''k'', JInt 3)])]"
          "[(''k'', JInt 3)]" example_server search_line "[]",
          THEN conjunct2, THEN conjunct2, THEN conjunct2, THEN mp, OF _ _ _ _ _ a])
       (simp_all add: request_def dict_get_def)
  then show ?thesis
    by (simp add: i no_attribute_def)
qed

lemma run_initialize:
  "strip line \<noteq> [] \<Longrightarrow> json_loads S (strip line) = Loaded (JObj request)
     \<Longrightarrow> dict_get request ''method'' JNull = JStr ''initialize''
     \<Longrightarrow> run S (line # rest) =
           Notification ''notifications/initialized'' (JObj []) #
           Response (Success (dict_get request ''id'' JNull) (Initialize initialize_result)) #
           run S rest"
  by (simp add: handle_request_dict dispatch_def)

text \<open>
  C1 fails on the code. \<^verbatim>\<open>handle_request\<close> prints the notification while it builds the
  result, and \<^verbatim>\<open>run\<close> prints the response only after \<^verbatim>\<open>handle_request\<close> has
  returned: for the request of \<^verbatim>\<open>initialize_line\<close> the notification is the first line
  written and the response the second. The comment above the \<^verbatim>\<open>print\<close> says "Send the
  required notification after responding".
\<close>

theorem run_initialize_order:
  "run example_server [initialize_line] =
     [Notification ''notifications/initialized'' (JObj []),
      Response (Success (JInt 1) (Initialize initialize_result))]"
proof -
  have s: "strip initialize_line = initialize_line"
    by (simp add: strip_def isspace_def initialize_line_def)
  have n: "initialize_line \<noteq> []"
    by (simp add: initialize_line_def)
  have l: "json_loads example_server initialize_line =
      Loaded (JObj [(''jsonrpc'', JStr ''2.0''), (''id'', JInt 1), (''method'', JStr ''initialize'')])"
    by (simp add: example_server_def example_loads_def)
  have h: "handle_request example_server
      (JObj [(''jsonrpc'', JStr ''2.0''), (''id'', JInt 1), (''method'', JStr ''initialize'')]) =
      Inr ([Notification ''notifications/initialized'' (JObj [])],
           Success (JInt 1) (Initialize initialize_result))"
    by (simp add: handle_request_dict dispatch_def dict_get_def)
  show ?thesis
    by (simp add: s n l h)
qed

section \<open>Properties of the hybrid retrieval engine\<close>

lemma bind_eq_Inr: "bind m f = Inr y \<longleftrightarrow> (\<exists>x. m = Inr x \<and> f x = Inr y)"
  by (cases m) simp_all

lemma mapM_Inr_rel: "mapM f xs = Inr ys \<Longrightarrow> list_all2 (\<lambda>x y. f x = Inr y) xs ys"
proof (induction xs arbitrary: ys)
  case Nil
  then show ?case by simp
next
  case (Cons x xs)
  then obtain y zs where "f x = Inr y" "mapM f xs = Inr zs" "ys = y # zs"
    by (auto simp: bind_eq_Inr)
  with Cons.IH show ?case by simp
qed

lemma make_item_scores:
  "make_item S r = Inr it \<Longrightarrow> dense it = dense_score r \<and> bm25 it = bm25_score r \<and> section_id it = sid r"
  by (auto simp: make_item_def Let_def bind_eq_Inr)

lemma add_neighbors_scores:
  "add_neighbors S it = Inr h \<Longrightarrow> dense h = dense it \<and> bm25 h = bm25 it \<and> section_id h = section_id it"
  by (auto simp: add_neighbors_def bind_eq_Inr)

lemma sorted_wrt_rel:
  assumes "sorted_wrt P xs" and "list_all2 R xs ys"
    and "\<And>x x' y y'. R x y \<Longrightarrow> R x' y' \<Longrightarrow> P x x' \<Longrightarrow> Q y y'"
  shows "sorted_wrt Q ys"
proof -
  have len: "length xs = length ys"
    using assms(2) by (rule list_all2_lengthD)
  have "Q (ys ! i) (ys ! j)" if "i < j" "j < length ys" for i j
  proof -
    have "R (xs ! i) (ys ! i)" "R (xs ! j) (ys ! j)"
      using assms(2) that len by (simp_all add: list_all2_nthD2)
    moreover have "P (xs ! i) (xs ! j)"
      using assms(1) that len by (simp add: sorted_wrt_nth_less)
    ultimately show ?thesis by (rule assms(3))
  qed
  then show ?thesis by (simp add: sorted_wrt_iff_nth_less)
qed

lemma rank_sorted:
  "sorted_wrt (\<lambda>a b. combined (dense_score b) (bm25_score b) \<le> combined (dense_score a) (bm25_score a))
     (rank merged)"
proof -
  have "sorted (map (\<lambda>x. - combined (dense_score x) (bm25_score x)) (rank merged))"
    unfolding rank_def by (rule sorted_sort_key)
  then show ?thesis by (simp add: sorted_map)
qed

lemma slice_int_pos: "1 \<le> k \<Longrightarrow> slice_int k xs = take (nat k) xs"
  by (simp add: slice_int_def)

text \<open>
  C4. Whenever a search with a string query and an integer \<open>k\<close> of at least 1 returns, the
  list \<^verbatim>\<open>out\<close> it returns has at most \<open>k\<close> entries and is in descending order of
  \<open>0.7 * dense + 0.3 * bm25\<close>, computed from the scores each entry carries.
\<close>

theorem sop_search_sorted_top_k:
  assumes "sop_search_out S (JStr q) (JInt k) = Inr out" and "1 \<le> k"
  shows "int (length out) \<le> k \<and>
    sorted_wrt (\<lambda>a b. 7 / 10 * dense b + 3 / 10 * bm25 b \<le> 7 / 10 * dense a + 3 / 10 * bm25 a) out"
proof -
  from assms(1) obtain bm dn items where
    items: "mapM (make_item S) (slice_int k (rank (merge dn bm))) = Inr items"
    and out: "mapM (add_neighbors S) items = Inr out"
    by (auto simp: sop_search_out_def bind_eq_Inr)
  let ?top = "take (nat k) (rank (merge dn bm))"
  have r1: "list_all2 (\<lambda>r it. make_item S r = Inr it) ?top items"
    using items assms(2) by (simp add: slice_int_pos mapM_Inr_rel)
  have r2: "list_all2 (\<lambda>it h. add_neighbors S it = Inr h) items out"
    using out by (rule mapM_Inr_rel)
  have "length out = length ?top"
    using list_all2_lengthD[OF r1] list_all2_lengthD[OF r2] by simp
  then have len: "int (length out) \<le> k"
    using assms(2) by simp
  have s0: "sorted_wrt (\<lambda>a b. combined (dense_score b) (bm25_score b)
                             \<le> combined (dense_score a) (bm25_score a)) ?top"
    using rank_sorted by (rule sorted_wrt_take)
  have s1: "sorted_wrt (\<lambda>a b. combined (dense b) (bm25 b) \<le> combined (dense a) (bm25 a)) items"
    using s0 r1 by (rule sorted_wrt_rel) (simp add: make_item_scores)
  have s2: "sorted_wrt (\<lambda>a b. combined (dense b) (bm25 b) \<le> combined (dense a) (bm25 a)) out"
    using s1 r2 by (rule sorted_wrt_rel) (simp add: add_neighbors_scores)
  have "combined d b = 7 / 10 * d + 3 / 10 * b" for d b
    by (simp add: combined_def)
  with s2 len show ?thesis by simp
qed

text \<open>
  The small server answers the query \<^verbatim>\<open>safety procedures\<close> with \<open>k = 2\<close> by two sections,
  with combined scores 1.16 and 0.36.
\<close>

theorem sop_search_sorted_top_k_witness:
  "sop_search_out example_server (JStr ''safety procedures'') (JInt 2) =
     Inr [\<lparr>section_id = ''SOP-001::PROCEDURE'', excerpt = JStr ''Wear gloves. Wash hands.'',
           dense = 4 / 5, bm25 = 2, neighbors = []\<rparr>,
          \<lparr>section_id = ''SOP-001::PURPOSE'', excerpt = JStr ''Keep people safe.'',
           dense = 3 / 10, bm25 = 1 / 2, neighbors = [''SOP-001::PROCEDURE'']\<rparr>]
   \<and> (1::int) \<le> 2
   \<and> 7 / 10 * (3 / 10) + 3 / 10 * (1 / 2) \<le> 7 / 10 * (4 / 5) + 3 / 10 * (2::rat)"
proof -
  let ?h1 = "\<lparr>section_id = ''SOP-001::PROCEDURE'', excerpt = JStr ''Wear gloves. Wash hands.'',
           dense = 4 / 5, bm25 = 2, neighbors = []\<rparr>"
  let ?h2 = "\<lparr>section_id = ''SOP-001::PURPOSE'', excerpt = JStr ''Keep people safe.'',
           dense = 3 / 10, bm25 = 1 / 2, neighbors = [''SOP-001::PROCEDURE'']\<rparr>"
  have e: "sop_search_out example_server (JStr ''safety procedures'') (JInt 2) = Inr [?h1, ?h2]"
    by code_simp
  have k: "(1::int) \<le> 2"
    by simp
  note t = sop_search_sorted_top_k[OF e k, THEN conjunct2]
  have "7 / 10 * dense ?h2 + 3 / 10 * bm25 ?h2 \<le> 7 / 10 * dense ?h1 + 3 / 10 * bm25 ?h1"
    using t by (simp only: sorted_wrt.simps list.set ball_simps insert_iff empty_iff simp_thms)
  then have "7 / 10 * (3 / 10) + 3 / 10 * (1 / 2) \<le> 7 / 10 * (4 / 5) + 3 / 10 * (2::rat)"
    by simp
  with e k show ?thesis
    by (intro conjI)
qed

lemma map_of_dict_set: "map_of (dict_set d k v) = (map_of d)(k \<mapsto> v)"
  by (induction d) (auto simp: fun_eq_iff)

lemma keys_dict_set: "fst ` set (dict_set d k v) = insert k (fst ` set d)"
  by (simp add: dom_map_of_conv_image_fst[symmetric] map_of_dict_set)

lemma distinct_dict_set: "distinct (map fst d) \<Longrightarrow> distinct (map fst (dict_set d k v))"
  by (induction d) (auto simp: keys_dict_set)

lemma keyed_Nil: "keyed []"
  by (simp add: keyed_def)

lemma sid_dict_set:
  "\<forall>p \<in> set d. sid (snd p) = fst p \<Longrightarrow> sid v = k
     \<Longrightarrow> \<forall>p \<in> set (dict_set d k v). sid (snd p) = fst p"
  by (induction d) (fastforce split: if_splits)+

lemma keyed_dict_set:
  assumes "keyed d" and "sid v = k"
  shows "keyed (dict_set d k v)"
proof -
  have "distinct (map fst (dict_set d k v))"
    using assms(1) by (simp add: keyed_def distinct_dict_set)
  moreover have "\<forall>p \<in> set (dict_set d k v). sid (snd p) = fst p"
    using assms by (intro sid_dict_set) (simp_all add: keyed_def)
  ultimately show ?thesis
    by (simp add: keyed_def)
qed

lemma keyed_add_dense: "keyed d \<Longrightarrow> keyed (add_dense d c)"
  by (simp add: add_dense_def keyed_dict_set)

lemma map_of_sid: "keyed d \<Longrightarrow> map_of d k = Some v \<Longrightarrow> sid v = k"
  by (auto simp: keyed_def dest!: map_of_SomeD)

lemma keyed_add_bm25: "keyed d \<Longrightarrow> keyed (add_bm25 d c)"
  by (auto simp: add_bm25_def keyed_dict_set map_of_sid split: option.splits)

lemma keyed_foldl_dense: "keyed d \<Longrightarrow> keyed (foldl add_dense d D)"
  by (induction D arbitrary: d) (simp_all add: keyed_add_dense)

lemma keyed_foldl_bm25: "keyed d \<Longrightarrow> keyed (foldl add_bm25 d B)"
  by (induction B arbitrary: d) (simp_all add: keyed_add_bm25)

lemma keyed_merge: "keyed (merge D B)"
  by (simp add: merge_def keyed_foldl_bm25 keyed_foldl_dense keyed_Nil)

lemma map_of_add_dense:
  "map_of (add_dense d c) = (map_of d)(fst c \<mapsto> \<lparr>sid = fst c, dense_score = snd c, bm25_score = 0\<rparr>)"
  by (simp add: add_dense_def map_of_dict_set)

lemma map_of_add_bm25:
  "map_of (add_bm25 d c) =
     (map_of d)(fst c \<mapsto>
        (case map_of d (fst c) of
           Some r \<Rightarrow> r\<lparr>bm25_score := snd c\<rparr>
         | None \<Rightarrow> \<lparr>sid = fst c, dense_score = 0, bm25_score = snd c\<rparr>))"
  by (simp add: add_bm25_def map_of_dict_set split: option.splits)

lemma map_of_foldl_dense:
  "map_of (foldl add_dense d D) s =
     (case map_of (rev D) s of
        Some x \<Rightarrow> Some \<lparr>sid = s, dense_score = x, bm25_score = 0\<rparr>
      | None \<Rightarrow> map_of d s)"
proof (induction D arbitrary: d)
  case Nil
  then show ?case by simp
next
  case (Cons c D)
  show ?case
    by (simp add: Cons.IH map_of_add_dense map_add_def split: option.splits)
qed

lemma map_of_foldl_bm25:
  "map_of (foldl add_bm25 d B) s =
     (case map_of (rev B) s of
        Some b \<Rightarrow>
          (case map_of d s of
             Some r \<Rightarrow> Some (r\<lparr>bm25_score := b\<rparr>)
           | None \<Rightarrow> Some \<lparr>sid = s, dense_score = 0, bm25_score = b\<rparr>)
      | None \<Rightarrow> map_of d s)"
proof (induction B arbitrary: d)
  case Nil
  then show ?case by simp
next
  case (Cons c B)
  show ?case
    by (simp add: Cons.IH map_of_add_bm25 map_add_def split: option.splits)
qed

lemma map_of_merge:
  "map_of (merge D B) s =
     (case (map_of (rev D) s, map_of (rev B) s) of
        (Some d, Some b) \<Rightarrow> Some \<lparr>sid = s, dense_score = d, bm25_score = b\<rparr>
      | (Some d, None) \<Rightarrow> Some \<lparr>sid = s, dense_score = d, bm25_score = 0\<rparr>
      | (None, Some b) \<Rightarrow> Some \<lparr>sid = s, dense_score = 0, bm25_score = b\<rparr>
      | (None, None) \<Rightarrow> None)"
  by (simp add: merge_def map_of_foldl_bm25 map_of_foldl_dense split: option.splits)

lemma keyed_filter:
  "keyed d \<Longrightarrow> map_of d s = Some v \<Longrightarrow> filter (\<lambda>r. sid r = s) (map snd d) = [v]"
  unfolding keyed_def
proof (induction d)
  case Nil
  then show ?case by simp
next
  case (Cons a d)
  obtain k w where a: "a = (k, w)" by (cases a)
  show ?case
  proof (cases "k = s")
    case True
    have "filter (\<lambda>r. sid r = s) (map snd d) = []"
      using Cons.prems a True by (force simp: filter_empty_conv)
    with Cons.prems a True show ?thesis by simp
  next
    case False
    with Cons a show ?thesis by auto
  qed
qed

lemma filter_sort_single:
  "filter P xs = [v] \<Longrightarrow> filter P (sort_key f xs) = [v]"
  by (simp add: filter_sort)

lemma rank_entry:
  "map_of (merge D B) s = Some v \<Longrightarrow> filter (\<lambda>r. sid r = s) (rank (merge D B)) = [v]"
  unfolding rank_def by (rule filter_sort_single) (rule keyed_filter[OF keyed_merge])

lemma map_of_rev_None: "map_of (rev B) s = None \<longleftrightarrow> s \<notin> fst ` set B"
  by (simp add: map_of_eq_None_iff)

text \<open>
  C5. \<open>D\<close> and \<open>B\<close> are the dense and the lexical candidates, \<open>map_of (rev D) s = Some d\<close>
  says that \<open>s\<close> is a dense candidate and \<open>d\<close> the dense score recorded for it (the last
  one, should the id come up more than once), and likewise for \<open>B\<close>. In the fused list
  \<^verbatim>\<open>results\<close> an id that is in both candidate lists has exactly one entry, which carries
  both scores; an id that is in one list only has exactly one entry, with 0 for the score
  of the other side.
\<close>

theorem merge_fused_once:
  "(\<forall>d b. map_of (rev D) s = Some d \<and> map_of (rev B) s = Some b \<longrightarrow>
      filter (\<lambda>r. sid r = s) (rank (merge D B)) = [\<lparr>sid = s, dense_score = d, bm25_score = b\<rparr>])
   \<and> (\<forall>d. map_of (rev D) s = Some d \<and> s \<notin> fst ` set B \<longrightarrow>
      filter (\<lambda>r. sid r = s) (rank (merge D B)) = [\<lparr>sid = s, dense_score = d, bm25_score = 0\<rparr>])
   \<and> (\<forall>b. s \<notin> fst ` set D \<and> map_of (rev B) s = Some b \<longrightarrow>
      filter (\<lambda>r. sid r = s) (rank (merge D B)) = [\<lparr>sid = s, dense_score = 0, bm25_score = b\<rparr>])"
proof (intro conjI allI impI)
  fix d b
  assume "map_of (rev D) s = Some d \<and> map_of (rev B) s = Some b"
  then have "map_of (merge D B) s = Some \<lparr>sid = s, dense_score = d, bm25_score = b\<rparr>"
    by (simp add: map_of_merge)
  then show "filter (\<lambda>r. sid r = s) (rank (merge D B)) = [\<lparr>sid = s, dense_score = d, bm25_score = b\<rparr>]"
    by (rule rank_entry)
next
  fix d
  assume "map_of (rev D) s = Some d \<and> s \<notin> fst ` set B"
  then have "map_of (merge D B) s = Some \<lparr>sid = s, dense_score = d, bm25_score = 0\<rparr>"
    by (simp add: map_of_merge map_of_rev_None[symmetric])
  then show "filter (\<lambda>r. sid r = s) (rank (merge D B)) = [\<lparr>sid = s, dense_score = d, bm25_score = 0\<rparr>]"
    by (rule rank_entry)
next
  fix b
  assume "s \<notin> fst ` set D \<and> map_of (rev B) s = Some b"
  then have "map_of (merge D B) s = Some \<lparr>sid = s, dense_score = 0, bm25_score = b\<rparr>"
    by (simp add: map_of_merge map_of_rev_None[symmetric])
  then show "filter (\<lambda>r. sid r = s) (rank (merge D B)) = [\<lparr>sid = s, dense_score = 0, bm25_score = b\<rparr>]"
    by (rule rank_entry)
qed

lemma map_of_rev_distinct:
  "distinct (map fst D) \<Longrightarrow> map_of (rev D) s = Some d \<longleftrightarrow> (s, d) \<in> set D"
  by (simp add: rev_map[symmetric])

text \<open>
  \<^verbatim>\<open>A\<close> is a candidate of both sides, \<^verbatim>\<open>B\<close> of the dense side only, \<^verbatim>\<open>C\<close> of the
  lexical side only.
\<close>

theorem merge_fused_once_witness:
  "filter (\<lambda>r. sid r = ''A'')
      (rank (merge [(''A'', 4 / 5), (''B'', 3 / 10)] [(''A'', 2), (''C'', 3)])) =
     [\<lparr>sid = ''A'', dense_score = 4 / 5, bm25_score = 2\<rparr>]
   \<and> filter (\<lambda>r. sid r = ''B'')
      (rank (merge [(''A'', 4 / 5), (''B'', 3 / 10)] [(''A'', 2), (''C'', 3)])) =
     [\<lparr>sid = ''B'', dense_score = 3 / 10, bm25_score = 0\<rparr>]
   \<and> filter (\<lambda>r. sid r = ''C'')
      (rank (merge [(''A'', 4 / 5), (''B'', 3 / 10)] [(''A'', 2), (''C'', 3)])) =
     [\<lparr>sid = ''C'', dense_score = 0, bm25_score = 3\<rparr>]"
proof -
  let ?D = "[(''A'', 4 / 5), (''B'', 3 / 10)] :: (string \<times> rat) list"
  let ?B = "[(''A'', 2), (''C'', 3)] :: (string \<times> rat) list"
  have a: "map_of (rev ?D) ''A'' = Some (4 / 5) \<and> map_of (rev ?B) ''A'' = Some 2"
    by simp
  have b: "map_of (rev ?D) ''B'' = Some (3 / 10) \<and> ''B'' \<notin> fst ` set ?B"
    by simp
  have c: "''C'' \<notin> fst ` set ?D \<and> map_of (rev ?B) ''C'' = Some 3"
    by simp
  note t1 = merge_fused_once[of ?D "''A''" ?B, THEN conjunct1, THEN spec, THEN spec, THEN mp, OF a]
  note t2 = merge_fused_once[of ?D "''B''" ?B, THEN conjunct2, THEN conjunct1, THEN spec, THEN mp, OF b]
  note t3 = merge_fused_once[of ?D "''C''" ?B, THEN conjunct2, THEN conjunct2, THEN spec, THEN mp, OF c]
  from t1 t2 t3 show ?thesis
    by (intro conjI)
qed

lemma make_item_no_node:
  "kg S (sid r) = None \<Longrightarrow>
     make_item S r = Inr \<lparr>section_id = sid r, excerpt = JStr [], dense = dense_score r, bm25 = bm25_score r\<rparr>"
  by (simp add: make_item_def Let_def dict_get_def split: option.splits)

lemma add_neighbors_no_node:
  "kg S (section_id it) = None \<Longrightarrow>
     add_neighbors S it = Inl (NetworkXError [Lit ''The node '', Str (JStr (section_id it)),
                                             Lit '' is not in the digraph.''])"
  by (simp add: add_neighbors_def successors_def)

lemma add_neighbors_node:
  "add_neighbors S it = Inr h \<Longrightarrow> kg S (section_id h) \<noteq> None"
  by (auto simp: add_neighbors_def successors_def bind_eq_Inr split: option.splits)

lemma sop_search_out_nodes:
  assumes "sop_search_out S query k = Inr out" and "h \<in> set out"
  shows "kg S (section_id h) \<noteq> None"
proof -
  from assms(1) obtain items where "mapM (add_neighbors S) items = Inr out"
    by (auto simp: sop_search_out_def bind_eq_Inr split: json.splits)
  then have "list_all2 (\<lambda>it h. add_neighbors S it = Inr h) items out"
    by (rule mapM_Inr_rel)
  with assms(2) obtain it where "add_neighbors S it = Inr h"
    by (auto simp: in_set_conv_nth list_all2_conv_all_nth)
  then show ?thesis
    by (rule add_neighbors_node)
qed

text \<open>
  C2 fails on the code. The first loop reads the node with \<^verbatim>\<open>kg.nodes.get(sid, {})\<close> and
  gives a section without a node the empty excerpt (\<open>make_item_no_node\<close>); the second loop
  calls \<^verbatim>\<open>kg.successors\<close>, which raises for such a section (\<open>add_neighbors_no_node\<close>),
  so a search that returns has a node for every result (\<open>sop_search_out_nodes\<close>). In the
  small server \<^verbatim>\<open>SOP-002::SCOPE\<close> is in the document table and not in the graph, and the
  search for \<^verbatim>\<open>scope\<close> raises.
\<close>

theorem sop_search_missing_node:
  "kg example_server ''SOP-002::SCOPE'' = None
   \<and> sop_search_out example_server (JStr ''scope'') (JInt 1) =
       Inl (NetworkXError [Lit ''The node '', Str (JStr ''SOP-002::SCOPE''),
                           Lit '' is not in the digraph.''])
   \<and> sop_search example_server (JStr ''scope'') (JInt 1) =
       Inl (NetworkXError [Lit ''The node '', Str (JStr ''SOP-002::SCOPE''),
                           Lit '' is not in the digraph.''])"
proof -
  have a: "kg example_server ''SOP-002::SCOPE'' = None"
    by (simp add: example_server_def example_kg_def)
  have b: "sop_search_out example_server (JStr ''scope'') (JInt 1) =
       Inl (NetworkXError [Lit ''The node '', Str (JStr ''SOP-002::SCOPE''),
                           Lit '' is not in the digraph.''])"
    by code_simp
  from a b show ?thesis
    by (simp add: sop_search_def)
qed

end
